theory Spec2Isabelle
  imports Main "HOL-Library.Word"
begin

section \<open>The table cache of db/table\_cache.cc\<close>

text \<open>
  The development embeds \<^verbatim>\<open>TableCache\<close> (db/table\_cache.cc): the directory search of
  \<^verbatim>\<open>FindTable\<close>, and \<^verbatim>\<open>NewIterator\<close>, \<^verbatim>\<open>Get\<close> and \<^verbatim>\<open>Evict\<close> on top of it.
  The collaborators whose code is not part of the sources (Env, Table, Cache, Iterator,
  the filename builder, the fixed-width coder) are either parameters of the model or
  small models written from the specification, each marked as such.
\<close>

subsection \<open>Status\<close>

text \<open>
  Modelled from the spec: the class \<^verbatim>\<open>Status\<close> (leveldb/status.h) is not among the
  sources. A status is either OK or a failure of one of the kinds of the error taxonomy
  (NotFound, a format error, an I/O error, ...), with its message.
  \<^verbatim>\<open>Status::NotFound("m")\<close> is \<open>Failed (NotFound ''m'')\<close>.
\<close>

datatype error =
    NotFound string
  | Corruption string
  | NotSupported string
  | InvalidArgument string
  | IOError string

datatype status = OK | Failed error

definition ok :: "status \<Rightarrow> bool" where
  "ok s = (s = OK)"

subsection \<open>Options and the directory search path\<close>

text \<open>The two fields of \<^verbatim>\<open>Options\<close> that \<^verbatim>\<open>FindTable\<close> reads itself.\<close>

record Options =
  enable_multi_disk :: bool
  data_dirs :: "string list"

text \<open>
  The lambda \<^verbatim>\<open>push_unique_dir\<close> (lines 54-60), with the vector it captures as an
  argument and the updated vector as the result: an empty name and a name that is
  already in the vector are skipped.
\<close>

definition push_unique_dir :: "string list \<Rightarrow> string \<Rightarrow> string list" where
  "push_unique_dir search_dirs dir =
     (if dir = [] then search_dirs
      else if dir \<in> set search_dirs then search_dirs
      else search_dirs @ [dir])"

text \<open>
  Lines 53-71 of \<^verbatim>\<open>FindTable\<close>. \<open>n\<close>, \<open>start\<close> and \<open>i\<close> are \<^verbatim>\<open>size_t\<close>;
  \<open>start < n\<close> and \<open>i < n\<close>, and \<open>n\<close> is the size of a vector of strings, so
  \<open>start + i\<close> stays below \<open>2 * n\<close> and cannot wrap: the indices are natural numbers
  here. The index \<open>(start + i) mod n\<close> is always in range, as \<open>n > 0\<close> in the loop.
\<close>

definition search_dirs :: "Options \<Rightarrow> string \<Rightarrow> 64 word \<Rightarrow> string list" where
  "search_dirs options dbname file_number =
     (let dirs1 =
        (if enable_multi_disk options \<and> data_dirs options \<noteq> [] then
           (let n = length (data_dirs options);
                start = unat file_number mod n
            in fold (\<lambda>i dirs. push_unique_dir dirs (data_dirs options ! ((start + i) mod n)))
                 [0..<n] [])
         else [])
      in push_unique_dir dirs1 dbname)"

text \<open>
  The search path in the words of the specification: the alternates in circular order
  from index \<open>identifier mod N\<close>, then the primary directory, every name kept at its
  first occurrence only.
\<close>

fun drop_repeats :: "string list \<Rightarrow> string list" where
  "drop_repeats [] = []"
| "drop_repeats (d # ds) = d # drop_repeats (filter (\<lambda>x. x \<noteq> d) ds)"

definition spec_search_path :: "Options \<Rightarrow> string \<Rightarrow> 64 word \<Rightarrow> string list" where
  "spec_search_path options dbname file_number =
     (if enable_multi_disk options \<and> data_dirs options \<noteq> [] then
        drop_repeats
          (rotate (unat file_number mod length (data_dirs options)) (data_dirs options)
             @ [dbname])
      else [dbname])"

subsection \<open>File names and the cache key\<close>

text \<open>
  Modelled from the spec: the filename builder (\<^verbatim>\<open>TableFileName\<close> and
  \<^verbatim>\<open>SSTTableFileName\<close> of db/filename.h) is not among the sources. The current
  naming convention is \<^verbatim>\<open><number>.ldb\<close>, inside the directory; how the number is
  printed (zero-padded or not) is the engine's business and is the parameter
  \<open>number_string\<close>.
\<close>

definition TableFileName :: "(64 word \<Rightarrow> string) \<Rightarrow> string \<Rightarrow> 64 word \<Rightarrow> string" where
  "TableFileName number_string dbname number = dbname @ ''/'' @ number_string number @ ''.ldb''"

text \<open>
  Modelled from the spec: \<^verbatim>\<open>SSTTableFileName\<close> (db/filename.h), the legacy naming
  convention \<^verbatim>\<open><number>.sst\<close>.
\<close>

definition SSTTableFileName :: "(64 word \<Rightarrow> string) \<Rightarrow> string \<Rightarrow> 64 word \<Rightarrow> string" where
  "SSTTableFileName number_string dbname number = dbname @ ''/'' @ number_string number @ ''.sst''"

type_synonym bytes = "8 word list"

text \<open>
  Modelled from the spec: \<^verbatim>\<open>EncodeFixed64\<close> (util/coding.h) is not among the sources.
  The cache key is a fixed-width encoding of the identifier, \<^verbatim>\<open>sizeof(file_number)\<close> = 8
  bytes long; the byte order (any deterministic one will do) is taken least significant
  byte first.
\<close>

definition EncodeFixed64 :: "64 word \<Rightarrow> bytes" where
  "EncodeFixed64 v = map (\<lambda>i. ucast (drop_bit (8 * i) v)) [0..<8]"

subsection \<open>Cached entries, events and the state\<close>

text \<open>The struct of lines 16-19 (its members are \<^verbatim>\<open>file\<close> and \<^verbatim>\<open>table\<close>; \<open>file\<close> is a
  keyword of Isabelle); \<open>'f\<close> is the open file, \<open>'t\<close> the parsed table.\<close>

record ('f, 't) TableAndFile =
  tf_file :: 'f
  tf_table :: 't

datatype ('f, 't) resource = TableObject 't | FileObject 'f

text \<open>
  Every call that \<^verbatim>\<open>TableCache\<close> makes to a collaborator, and every \<^verbatim>\<open>delete\<close> of a
  file or a table, is recorded in a trace, in the order of the calls. (The accessor
  \<^verbatim>\<open>Cache::Value\<close> only reads and is not recorded.)
\<close>

datatype ('f, 't) event =
    NewRandomAccessFile string
  | TableOpen 'f "64 word"
  | Delete "('f, 't) resource"
  | CacheLookup bytes
  | CacheInsert bytes 'f 't nat
  | CacheRelease nat
  | CacheErase bytes
  | InternalGet 't bytes
  | NewTableIterator 't

text \<open>
  \<^verbatim>\<open>DeleteEntry\<close> (lines 21-26), the destructor registered with every cached entry:
  the table is deleted first, then the file.
\<close>

definition DeleteEntry :: "bytes \<Rightarrow> ('f, 't) TableAndFile \<Rightarrow> ('f, 't) resource list" where
  "DeleteEntry key tf = [TableObject (tf_table tf), FileObject (tf_file tf)]"

text \<open>
  Modelled from the spec: the Handle Cache (leveldb/cache.h, util/cache.cc) is not among
  the sources. It is a reference-counted associative cache from byte strings to values,
  each with a destructor that runs exactly once, when the last reference to the entry is
  dropped. An entry in the cache is referenced by the cache itself and once by every
  outstanding Reference Handle. A \<^verbatim>\<open>Cache::Handle*\<close> is the number of the entry it
  refers to (numbers are never reused), \<^verbatim>\<open>nullptr\<close> is \<open>None\<close>.

  \<open>cache_entries\<close> holds every entry ever made, \<open>None\<close> once it has been destroyed;
  \<open>cache_index\<close> maps a key to the entry of record.
\<close>

record ('f, 't) entry =
  e_key :: bytes
  e_value :: "('f, 't) TableAndFile"
  e_charge :: nat
  e_deleter :: "bytes \<Rightarrow> ('f, 't) TableAndFile \<Rightarrow> ('f, 't) resource list"
  e_refs :: nat

record ('f, 't) state =
  cache_entries :: "('f, 't) entry option list"
  cache_index :: "bytes \<Rightarrow> nat option"
  trace :: "('f, 't) event list"

text \<open>
  Modelled from the spec: the state after the constructor, with the empty cache that
  \<^verbatim>\<open>NewLRUCache\<close> makes and nothing called yet.
\<close>

definition initial_state :: "('f, 't) state" where
  "initial_state = \<lparr>cache_entries = [], cache_index = (\<lambda>k. None), trace = []\<rparr>"

text \<open>Recording a call in the trace, and the live entry behind a handle, if any.\<close>

definition emit :: "('f, 't) event \<Rightarrow> ('f, 't) state \<Rightarrow> ('f, 't) state" where
  "emit ev s = s\<lparr>trace := trace s @ [ev]\<rparr>"

definition entry_of :: "('f, 't) state \<Rightarrow> nat \<Rightarrow> ('f, 't) entry option" where
  "entry_of s h = (if h < length (cache_entries s) then cache_entries s ! h else None)"

text \<open>
  Modelled from the spec: dropping one reference to an entry of the Handle Cache; the
  destructor runs, once, when it was the last one.
\<close>

definition Unref :: "nat \<Rightarrow> ('f, 't) state \<Rightarrow> ('f, 't) state" where
  "Unref h s =
     (case entry_of s h of
        None \<Rightarrow> s
      | Some e \<Rightarrow>
          if e_refs e \<le> 1 then
            s\<lparr>cache_entries := (cache_entries s)[h := None],
              trace := trace s @ map Delete (e_deleter e (e_key e) (e_value e))\<rparr>
          else s\<lparr>cache_entries := (cache_entries s)[h := Some (e\<lparr>e_refs := e_refs e - 1\<rparr>)]\<rparr>)"

text \<open>
  Modelled from the spec: \<^verbatim>\<open>Cache::Lookup(key)\<close> gives a new reference to the entry of
  record, or absent.
\<close>

definition Cache_Lookup :: "bytes \<Rightarrow> ('f, 't) state \<Rightarrow> nat option \<times> ('f, 't) state" where
  "Cache_Lookup key s0 =
     (let s = emit (CacheLookup key) s0 in
      case cache_index s key of
        None \<Rightarrow> (None, s)
      | Some h \<Rightarrow>
          (case entry_of s h of
             None \<Rightarrow> (None, s)
           | Some e \<Rightarrow>
               (Some h, s\<lparr>cache_entries := (cache_entries s)[h := Some (e\<lparr>e_refs := Suc (e_refs e)\<rparr>)]\<rparr>)))"

text \<open>Modelled from the spec: \<^verbatim>\<open>Cache::Value(handle)\<close>, the value of a live entry.\<close>

definition Cache_Value :: "('f, 't) state \<Rightarrow> nat \<Rightarrow> ('f, 't) TableAndFile option" where
  "Cache_Value s h = map_option e_value (entry_of s h)"

text \<open>Modelled from the spec: \<^verbatim>\<open>Cache::Release(handle)\<close> drops the handle's reference.\<close>

definition Cache_Release :: "nat \<Rightarrow> ('f, 't) state \<Rightarrow> ('f, 't) state" where
  "Cache_Release h s = Unref h (emit (CacheRelease h) s)"


text \<open>
  Modelled from the spec: eviction under capacity pressure. The eviction policy is out of
  the specification's scope: it is the parameter \<open>victims\<close> of \<open>Cache_Insert\<close>, which names the entries the
  policy wants to go. Whatever it names, an entry is evicted only while it is in the
  cache and no Reference Handle to it is outstanding (its only reference is the cache's).
\<close>

definition evict_entry :: "nat \<Rightarrow> ('f, 't) state \<Rightarrow> ('f, 't) state" where
  "evict_entry h s =
     (case entry_of s h of
        None \<Rightarrow> s
      | Some e \<Rightarrow>
          if cache_index s (e_key e) = Some h \<and> e_refs e = 1
          then Unref h (s\<lparr>cache_index := (cache_index s)(e_key e := None)\<rparr>)
          else s)"

text \<open>
  Modelled from the spec: \<^verbatim>\<open>Cache::Insert(key, value, charge, deleter)\<close>. The new entry
  becomes the entry of record (an older one under the same key loses the cache's
  reference), referenced by the cache and by the handle returned; then the policy evicts.
\<close>

definition Cache_Insert ::
  "(('f, 't) state \<Rightarrow> nat list) \<Rightarrow> bytes \<Rightarrow> ('f, 't) TableAndFile \<Rightarrow> nat \<Rightarrow>
   (bytes \<Rightarrow> ('f, 't) TableAndFile \<Rightarrow> ('f, 't) resource list) \<Rightarrow> ('f, 't) state \<Rightarrow>
   nat \<times> ('f, 't) state" where
  "Cache_Insert victims key value charge deleter s0 =
     (let s1 = emit (CacheInsert key (tf_file value) (tf_table value) charge) s0;
          h = length (cache_entries s1);
          s2 = (case cache_index s1 key of None \<Rightarrow> s1 | Some old \<Rightarrow> Unref old s1);
          s3 = s2\<lparr>cache_entries := cache_entries s2 @
                    [Some \<lparr>e_key = key, e_value = value, e_charge = charge,
                           e_deleter = deleter, e_refs = 2\<rparr>],
                  cache_index := (cache_index s2)(key := Some h)\<rparr>
      in (h, fold evict_entry (victims s3) s3))"

subsection \<open>Iterators\<close>

text \<open>
  Modelled from the spec: the class \<^verbatim>\<open>Iterator\<close> (leveldb/iterator.h) is not among the
  sources. An iterator is a finite, single-pass sequence of records with a status and
  the cleanup actions registered on it; deleting the iterator, wherever it stands, runs
  every registered cleanup once.
\<close>

record ('f, 't) Iterator =
  it_status :: status
  it_records :: "(bytes \<times> bytes) list"
  it_cleanups :: "(('f, 't) state \<Rightarrow> ('f, 't) state) list"

text \<open>
  Modelled from the spec: \<^verbatim>\<open>NewErrorIterator(s)\<close>, a sequence that yields no record and
  reports the terminal error \<open>s\<close>.
\<close>

definition NewErrorIterator :: "status \<Rightarrow> ('f, 't) Iterator" where
  "NewErrorIterator s = \<lparr>it_status = s, it_records = [], it_cleanups = []\<rparr>"

text \<open>
  Modelled from the spec: \<^verbatim>\<open>Iterator::RegisterCleanup\<close> adds a cleanup action (the
  function with its two arguments, as one state transformer) to the iterator.
\<close>

definition RegisterCleanup ::
  "(('f, 't) state \<Rightarrow> ('f, 't) state) \<Rightarrow> ('f, 't) Iterator \<Rightarrow> ('f, 't) Iterator" where
  "RegisterCleanup f it = it\<lparr>it_cleanups := it_cleanups it @ [f]\<rparr>"

text \<open>Modelled from the spec: one step of the single-pass sequence.\<close>

definition Iterator_Next :: "('f, 't) Iterator \<Rightarrow> ('f, 't) Iterator" where
  "Iterator_Next it = it\<lparr>it_records := tl (it_records it)\<rparr>"

text \<open>
  Modelled from the spec: the end of the iterator's life, by exhaustion or abandonment,
  which runs every registered cleanup once.
\<close>

definition Iterator_delete :: "('f, 't) Iterator \<Rightarrow> ('f, 't) state \<Rightarrow> ('f, 't) state" where
  "Iterator_delete it s = fold (\<lambda>cleanup s'. cleanup s') (it_cleanups it) s"

text \<open>
  \<^verbatim>\<open>UnrefEntry\<close> (lines 28-32); \<open>arg1\<close> is the cache, which is part of the state here,
  \<open>arg2\<close> the handle.
\<close>

definition UnrefEntry :: "nat \<Rightarrow> ('f, 't) state \<Rightarrow> ('f, 't) state" where
  "UnrefEntry h s = Cache_Release h s"

subsection \<open>TableCache\<close>

text \<open>
  The members \<^verbatim>\<open>env_\<close>, \<^verbatim>\<open>dbname_\<close>, \<^verbatim>\<open>options_\<close> and \<^verbatim>\<open>cache_\<close> of
  \<^verbatim>\<open>TableCache\<close>, set by the constructor (lines 34-39); a name cannot end with an
  underscore here. \<open>tc_env\<close> is the environment's \<^verbatim>\<open>NewRandomAccessFile\<close>: the
  open file, or the failure. \<open>tc_cache\<close> is the eviction policy of the cache made by
  \<^verbatim>\<open>NewLRUCache(entries)\<close>; the contents of the cache are in the state.
\<close>

record ('f, 't) TableCache =
  tc_env :: "string \<Rightarrow> error + 'f"
  tc_dbname :: string
  tc_options :: Options
  tc_cache :: "('f, 't) state \<Rightarrow> nat list"

text \<open>
  The functions of the Table Parser and the number format of the filename builder, none
  of them among the sources: parameters. \<open>Table_Open file size\<close> is the parsed table
  or the failure; \<open>Table_InternalGet t k\<close> is the status of the point lookup and the
  record handed to the visitor, if any.
\<close>

record ('f, 't) collaborators =
  number_string :: "64 word \<Rightarrow> string"
  Table_Open :: "'f \<Rightarrow> 64 word \<Rightarrow> error + 't"
  Table_InternalGet :: "'t \<Rightarrow> bytes \<Rightarrow> status \<times> (bytes \<times> bytes) option"
  Table_NewIterator :: "'t \<Rightarrow> ('f, 't) Iterator"

text \<open>
  The body of the loop over \<open>search_dirs\<close>, lines 78-105, for one directory: the
  outcome (the failure \<open>s\<close> recorded as \<open>last_status\<close>, or the file and table to
  insert) and the calls made. A failed open leaves \<open>file\<close> null, so that
  \<^verbatim>\<open>delete file\<close> does nothing; after a failed parse it deletes the open file.
\<close>

definition probe_dir ::
  "('f, 't) TableCache \<Rightarrow> ('f, 't) collaborators \<Rightarrow> 64 word \<Rightarrow> 64 word \<Rightarrow> string \<Rightarrow>
   (error + ('f, 't) TableAndFile) \<times> ('f, 't) event list" where
  "probe_dir tc ext file_number file_size dir =
     (let fname = TableFileName (number_string ext) dir file_number;
          (opened, calls) =
            (case tc_env tc fname of
               Inr f \<Rightarrow> (Inr f, [NewRandomAccessFile fname])
             | Inl s \<Rightarrow>
                 (let old_fname = SSTTableFileName (number_string ext) dir file_number in
                  case tc_env tc old_fname of
                    Inr f \<Rightarrow> (Inr f, [NewRandomAccessFile fname, NewRandomAccessFile old_fname])
                  | Inl s' \<Rightarrow> (Inl s, [NewRandomAccessFile fname, NewRandomAccessFile old_fname])))
      in case opened of
           Inl s \<Rightarrow> (Inl s, calls)
         | Inr f \<Rightarrow>
             (case Table_Open ext f file_size of
                Inr t \<Rightarrow> (Inr \<lparr>tf_file = f, tf_table = t\<rparr>, calls @ [TableOpen f file_size])
              | Inl s \<Rightarrow> (Inl s, calls @ [TableOpen f file_size, Delete (FileObject f)])))"

text \<open>The status that probing a directory leaves in \<open>s\<close>.\<close>

definition dir_status ::
  "('f, 't) TableCache \<Rightarrow> ('f, 't) collaborators \<Rightarrow> 64 word \<Rightarrow> 64 word \<Rightarrow> string \<Rightarrow> status" where
  "dir_status tc ext file_number file_size dir =
     (case fst (probe_dir tc ext file_number file_size dir) of
        Inl s \<Rightarrow> Failed s
      | Inr tf \<Rightarrow> OK)"

definition probe_events ::
  "('f, 't) TableCache \<Rightarrow> ('f, 't) collaborators \<Rightarrow> 64 word \<Rightarrow> 64 word \<Rightarrow> string list \<Rightarrow>
   ('f, 't) event list" where
  "probe_events tc ext file_number file_size dirs =
     concat (map (\<lambda>dir. snd (probe_dir tc ext file_number file_size dir)) dirs)"

text \<open>The loop of lines 77-109, with \<open>last_status\<close> as an accumulator.\<close>

fun probe_dirs ::
  "('f, 't) TableCache \<Rightarrow> ('f, 't) collaborators \<Rightarrow> 64 word \<Rightarrow> 64 word \<Rightarrow> bytes \<Rightarrow>
   string list \<Rightarrow> status \<Rightarrow> ('f, 't) state \<Rightarrow> (status \<times> nat option) \<times> ('f, 't) state" where
  "probe_dirs tc ext file_number file_size key [] last_status s = ((last_status, None), s)"
| "probe_dirs tc ext file_number file_size key (dir # dirs) last_status s =
     (case probe_dir tc ext file_number file_size dir of
        (Inr tf, calls) \<Rightarrow>
          (let (h, s') = Cache_Insert (tc_cache tc) key tf 1 DeleteEntry (s\<lparr>trace := trace s @ calls\<rparr>)
           in ((OK, Some h), s'))
      | (Inl e, calls) \<Rightarrow>
          probe_dirs tc ext file_number file_size key dirs (Failed e) (s\<lparr>trace := trace s @ calls\<rparr>))"

text \<open>\<^verbatim>\<open>TableCache::FindTable\<close> (lines 43-112): the status, \<open>*handle\<close> and the new state.\<close>

definition FindTable ::
  "('f, 't) TableCache \<Rightarrow> ('f, 't) collaborators \<Rightarrow> 64 word \<Rightarrow> 64 word \<Rightarrow> ('f, 't) state \<Rightarrow>
   (status \<times> nat option) \<times> ('f, 't) state" where
  "FindTable tc ext file_number file_size s0 =
     (let key = EncodeFixed64 file_number;
          (handle, s1) = Cache_Lookup key s0
      in case handle of
           Some h \<Rightarrow> ((OK, Some h), s1)
         | None \<Rightarrow>
             probe_dirs tc ext file_number file_size key
               (search_dirs (tc_options tc) (tc_dbname tc) file_number)
               (Failed (NotFound ''table file not found'')) s1)"

text \<open>
  \<^verbatim>\<open>TableCache::NewIterator\<close> (lines 114-134): the iterator and what is stored through
  \<open>tableptr\<close>. The result \<open>None\<close> stands for the undefined behaviour of reading
  through a null or dead handle after an OK status.
\<close>

definition NewIterator ::
  "('f, 't) TableCache \<Rightarrow> ('f, 't) collaborators \<Rightarrow> 64 word \<Rightarrow> 64 word \<Rightarrow> ('f, 't) state \<Rightarrow>
   (('f, 't) Iterator \<times> 't option) option \<times> ('f, 't) state" where
  "NewIterator tc ext file_number file_size s0 =
     (case FindTable tc ext file_number file_size s0 of
        ((Failed e, handle), s1) \<Rightarrow> (Some (NewErrorIterator (Failed e), None), s1)
      | ((OK, None), s1) \<Rightarrow> (None, s1)
      | ((OK, Some h), s1) \<Rightarrow>
          (case Cache_Value s1 h of
             None \<Rightarrow> (None, s1)
           | Some tf \<Rightarrow>
               (let result = Table_NewIterator ext (tf_table tf);
                    s2 = emit (NewTableIterator (tf_table tf)) s1
                in (Some (RegisterCleanup (UnrefEntry h) result, Some (tf_table tf)), s2))))"

text \<open>
  \<^verbatim>\<open>TableCache::Get\<close> (lines 136-148): the status and the record passed to
  \<open>handle_result\<close>, if any; \<open>None\<close> as for \<open>NewIterator\<close>.
\<close>

definition Get ::
  "('f, 't) TableCache \<Rightarrow> ('f, 't) collaborators \<Rightarrow> 64 word \<Rightarrow> 64 word \<Rightarrow> bytes \<Rightarrow>
   ('f, 't) state \<Rightarrow> (status \<times> (bytes \<times> bytes) option) option \<times> ('f, 't) state" where
  "Get tc ext file_number file_size k s0 =
     (case FindTable tc ext file_number file_size s0 of
        ((Failed e, handle), s1) \<Rightarrow> (Some (Failed e, None), s1)
      | ((OK, None), s1) \<Rightarrow> (None, s1)
      | ((OK, Some h), s1) \<Rightarrow>
          (case Cache_Value s1 h of
             None \<Rightarrow> (None, s1)
           | Some tf \<Rightarrow>
               (let r = Table_InternalGet ext (tf_table tf) k;
                    s2 = emit (InternalGet (tf_table tf) k) s1
                in (Some r, Cache_Release h s2))))"


text \<open>How often a handle has been released in a trace.\<close>

definition releases :: "nat \<Rightarrow> ('f, 't) event list \<Rightarrow> nat" where
  "releases h tr = length (filter (\<lambda>ev. ev = CacheRelease h) tr)"

text \<open>An entry of record that a Reference Handle refers to: the policy cannot evict it.\<close>

definition pinned :: "('f, 't) state \<Rightarrow> nat \<Rightarrow> ('f, 't) entry \<Rightarrow> bool" where
  "pinned s h e = (entry_of s h = Some e \<and> 2 \<le> e_refs e \<and> cache_index s (e_key e) = Some h)"

subsection \<open>The probe of a directory, as specified\<close>

text \<open>
  The probe of one directory in the words of the specification (4.1 a, b and d), from the
  environment and the parser alone. The file that a directory yields: the one opened
  under the current name or, if that open fails, the one opened under the legacy name.
\<close>

definition dir_opened ::
  "('f, 't) TableCache \<Rightarrow> ('f, 't) collaborators \<Rightarrow> 64 word \<Rightarrow> string \<Rightarrow> 'f option" where
  "dir_opened tc ext file_number dir =
     (case tc_env tc (TableFileName (number_string ext) dir file_number) of
        Inr f \<Rightarrow> Some f
      | Inl e \<Rightarrow>
          (case tc_env tc (SSTTableFileName (number_string ext) dir file_number) of
             Inr f \<Rightarrow> Some f
           | Inl e' \<Rightarrow> None))"

text \<open>
  In a directory both the open and the parse succeed, with file \<open>f\<close> and table \<open>t\<close>,
  when the directory yields \<open>f\<close> and \<open>f\<close> parses at the expected size as \<open>t\<close>.
\<close>

definition dir_succeeds ::
  "('f, 't) TableCache \<Rightarrow> ('f, 't) collaborators \<Rightarrow> 64 word \<Rightarrow> 64 word \<Rightarrow> string \<Rightarrow>
   'f \<Rightarrow> 't \<Rightarrow> bool" where
  "dir_succeeds tc ext file_number file_size dir f t =
     (dir_opened tc ext file_number dir = Some f \<and> Table_Open ext f file_size = Inr t)"

text \<open>
  The calls that the specification prescribes for one directory: the open of the current
  name; the open of the legacy name if, and only if, that failed; the parse of the file
  that an open gave, with the expected size; the closing of that file if the parse
  failed.
\<close>

definition dir_calls ::
  "('f, 't) TableCache \<Rightarrow> ('f, 't) collaborators \<Rightarrow> 64 word \<Rightarrow> 64 word \<Rightarrow> string \<Rightarrow>
   ('f, 't) event list" where
  "dir_calls tc ext file_number file_size dir =
     NewRandomAccessFile (TableFileName (number_string ext) dir file_number) #
     (if isl (tc_env tc (TableFileName (number_string ext) dir file_number))
      then [NewRandomAccessFile (SSTTableFileName (number_string ext) dir file_number)]
      else []) @
     (case dir_opened tc ext file_number dir of
        None \<Rightarrow> []
      | Some f \<Rightarrow>
          TableOpen f file_size #
          (if isl (Table_Open ext f file_size) then [Delete (FileObject f)] else []))"

subsection \<open>Example configurations\<close>

definition demo_options :: Options where
  "demo_options = \<lparr>enable_multi_disk = True, data_dirs = [''a'', ''b'']\<rparr>"

text \<open>
  A table parser that accepts a file exactly at the expected size 100, and a filename
  builder that prints every number as 000005 (the examples use identifier 5).
\<close>

definition demo_ext :: "(string, string) collaborators" where
  "demo_ext = \<lparr>number_string = (\<lambda>n. ''000005''),
               Table_Open = (\<lambda>f size. if size = 100 then Inr (''table:'' @ f) else Inl (Corruption f)),
               Table_InternalGet = (\<lambda>t k. (OK, None)),
               Table_NewIterator = (\<lambda>t. \<lparr>it_status = OK, it_records = [], it_cleanups = []\<rparr>)\<rparr>"

text \<open>
  A table cache over an environment in which exactly the files \<open>present\<close> can be
  opened, with a cache that evicts every entry it may evict.
\<close>

definition demo_tc :: "string list \<Rightarrow> string \<Rightarrow> Options \<Rightarrow> (string, string) TableCache" where
  "demo_tc present dbname options =
     \<lparr>tc_env = (\<lambda>p. if p \<in> set present then Inr p else Inl (NotFound p)),
      tc_dbname = dbname,
      tc_options = options,
      tc_cache = (\<lambda>s. [0..<length (cache_entries s)])\<rparr>"

text \<open>The primary directory p is also configured as an alternate.\<close>

definition shared_options :: Options where
  "shared_options = \<lparr>enable_multi_disk = True, data_dirs = [''a'', ''p'']\<rparr>"

text \<open>
  An environment without any file, where opening the current name in db fails with an
  I/O error and every other open with NotFound.
\<close>

definition failing_env :: "string \<Rightarrow> error + string" where
  "failing_env p = (if p = ''db/000005.ldb'' then Inl (IOError p) else Inl (NotFound p))"

text \<open>
  A state in which the table 5, read from a/000005.sst, is the entry of record, with
  \<open>refs\<close> references: the cache's and one for every outstanding Reference Handle.
\<close>

definition cached_state :: "nat \<Rightarrow> (string, string) state" where
  "cached_state refs =
     \<lparr>cache_entries =
        [Some \<lparr>e_key = EncodeFixed64 5,
               e_value = \<lparr>tf_file = ''a/000005.sst'', tf_table = ''table:a/000005.sst''\<rparr>,
               e_charge = 1, e_deleter = DeleteEntry, e_refs = refs\<rparr>],
      cache_index = (\<lambda>k. if k = EncodeFixed64 5 then Some 0 else None),
      trace = []\<rparr>"

section \<open>The search path\<close>

lemma set_drop_repeats: "set (drop_repeats ds) = set ds"
  by (induction ds rule: drop_repeats.induct) auto

lemma distinct_drop_repeats: "distinct (drop_repeats ds)"
  by (induction ds rule: drop_repeats.induct) (auto simp: set_drop_repeats)

lemma fold_push_unique_dir:
  "fold (\<lambda>d dirs. push_unique_dir dirs d) ds acc =
     acc @ drop_repeats (filter (\<lambda>d. d \<noteq> [] \<and> d \<notin> set acc) ds)"
proof (induction ds arbitrary: acc)
  case Nil
  show ?case by simp
next
  case (Cons d ds)
  show ?case
  proof (cases "d = [] \<or> d \<in> set acc")
    case True
    then have "push_unique_dir acc d = acc"
      by (auto simp: push_unique_dir_def)
    with True Cons.IH [of acc] show ?thesis by auto
  next
    case False
    then have p: "push_unique_dir acc d = acc @ [d]"
      by (simp add: push_unique_dir_def)
    have "filter (\<lambda>x. x \<noteq> [] \<and> x \<notin> set (acc @ [d])) ds =
          filter (\<lambda>x. x \<noteq> d) (filter (\<lambda>x. x \<noteq> [] \<and> x \<notin> set acc) ds)"
      by (auto intro: filter_cong)
    with False p Cons.IH [of "acc @ [d]"] show ?thesis by simp
  qed
qed

lemma circular_order_rotate:
  "map (\<lambda>i. ds ! ((s + i) mod length ds)) [0..<length ds] = rotate s ds"
  by (rule nth_equalityI) (simp_all add: nth_rotate)

lemma search_dirs_multi:
  assumes "enable_multi_disk options" and "data_dirs options \<noteq> []"
  shows "search_dirs options dbname file_number =
           drop_repeats (filter (\<lambda>d. d \<noteq> [])
             (rotate (unat file_number mod length (data_dirs options)) (data_dirs options)
               @ [dbname]))"
proof -
  let ?ds = "data_dirs options"
  let ?s = "unat file_number mod length ?ds"
  let ?push = "\<lambda>d dirs. push_unique_dir dirs d"
  have "fold (\<lambda>i dirs. push_unique_dir dirs (?ds ! ((?s + i) mod length ?ds)))
          [0..<length ?ds] [] =
        fold ?push (map (\<lambda>i. ?ds ! ((?s + i) mod length ?ds)) [0..<length ?ds]) []"
    by (simp add: fold_map comp_def)
  then have f: "fold (\<lambda>i dirs. push_unique_dir dirs (?ds ! ((?s + i) mod length ?ds)))
          [0..<length ?ds] [] = fold ?push (rotate ?s ?ds) []"
    by (simp only: circular_order_rotate)
  have "search_dirs options dbname file_number =
          push_unique_dir (fold ?push (rotate ?s ?ds) []) dbname"
    using assms by (simp add: search_dirs_def Let_def f)
  also have "\<dots> = fold ?push (rotate ?s ?ds @ [dbname]) []"
    by simp
  also have "\<dots> = drop_repeats (filter (\<lambda>d. d \<noteq> []) (rotate ?s ?ds @ [dbname]))"
    by (simp only: fold_push_unique_dir) simp
  finally show ?thesis .
qed

lemma search_dirs_single:
  assumes "\<not> (enable_multi_disk options \<and> data_dirs options \<noteq> [])"
  shows "search_dirs options dbname file_number = (if dbname = [] then [] else [dbname])"
  using assms by (auto simp: search_dirs_def push_unique_dir_def)

lemma drop_repeats_snoc:
  "d \<notin> set ds \<Longrightarrow> drop_repeats (ds @ [d]) = drop_repeats ds @ [d]"
  by (induction ds rule: drop_repeats.induct) auto

lemma search_dirs_primary_last:
  assumes "dbname \<noteq> []" and "enable_multi_disk options \<longrightarrow> dbname \<notin> set (data_dirs options)"
  shows "search_dirs options dbname fn \<noteq> [] \<and> last (search_dirs options dbname fn) = dbname"
proof (cases "enable_multi_disk options \<and> data_dirs options \<noteq> []")
  case True
  let ?ds = "filter (\<lambda>d. d \<noteq> [])
               (rotate (unat fn mod length (data_dirs options)) (data_dirs options))"
  have "dbname \<notin> set ?ds" using assms(2) True by simp
  then have "drop_repeats (?ds @ [dbname]) = drop_repeats ?ds @ [dbname]"
    by (rule drop_repeats_snoc)
  then have "search_dirs options dbname fn = drop_repeats ?ds @ [dbname]"
    using True assms(1) by (simp add: search_dirs_multi)
  then show ?thesis by simp
next
  case False
  then show ?thesis using assms(1) by (simp add: search_dirs_single)
qed

section \<open>The cache key and the file names\<close>

lemma length_EncodeFixed64: "length (EncodeFixed64 v) = 8"
  by (simp add: EncodeFixed64_def)

lemma EncodeFixed64_byte:
  "i < 8 \<Longrightarrow> EncodeFixed64 v ! i = ucast (drop_bit (8 * i) v)"
  by (simp add: EncodeFixed64_def)

text \<open>Two identifiers never share a cache key.\<close>

lemma EncodeFixed64_inj:
  assumes "EncodeFixed64 v = EncodeFixed64 w"
  shows "v = w"
proof (rule bit_word_eqI)
  fix n
  assume "n < LENGTH(64)"
  then have i: "n div 8 < 8" by simp
  have "EncodeFixed64 v ! (n div 8) = EncodeFixed64 w ! (n div 8)"
    using assms by simp
  then have "(ucast (drop_bit (8 * (n div 8)) v) :: 8 word) = ucast (drop_bit (8 * (n div 8)) w)"
    by (simp only: EncodeFixed64_byte [OF i])
  then have "bit (ucast (drop_bit (8 * (n div 8)) v) :: 8 word) (n mod 8) =
             bit (ucast (drop_bit (8 * (n div 8)) w) :: 8 word) (n mod 8)"
    by simp
  then show "bit v n = bit w n"
    by (simp add: bit_ucast_iff bit_drop_bit_eq)
qed

lemma file_names_differ: "TableFileName ns dir fn \<noteq> SSTTableFileName ns dir' fn'"
proof
  assume "TableFileName ns dir fn = SSTTableFileName ns dir' fn'"
  then have "rev (TableFileName ns dir fn) = rev (SSTTableFileName ns dir' fn')" by simp
  then show False by (simp add: TableFileName_def SSTTableFileName_def)
qed

section \<open>The cache\<close>

lemma entry_of_emit: "entry_of (emit ev s) h = entry_of s h"
  by (simp add: entry_of_def emit_def)

lemma cache_index_emit: "cache_index (emit ev s) = cache_index s"
  by (simp add: emit_def)

lemma cache_entries_emit: "cache_entries (emit ev s) = cache_entries s"
  by (simp add: emit_def)

lemma trace_emit: "trace (emit ev s) = trace s @ [ev]"
  by (simp add: emit_def)

lemma entry_of_index_update: "entry_of (s\<lparr>cache_index := m\<rparr>) h = entry_of s h"
  by (simp add: entry_of_def)

lemma entry_of_trace_update: "entry_of (s\<lparr>trace := tr\<rparr>) h = entry_of s h"
  by (simp add: entry_of_def)

lemma cache_index_Unref: "cache_index (Unref h s) = cache_index s"
  by (simp add: Unref_def split: option.splits)

lemma length_Unref: "length (cache_entries (Unref h s)) = length (cache_entries s)"
  by (simp add: Unref_def split: option.splits)

lemma trace_Unref: "\<exists>rs. trace (Unref h s) = trace s @ map Delete rs"
proof (cases "entry_of s h")
  case None
  then have "trace (Unref h s) = trace s @ map Delete []"
    by (simp add: Unref_def)
  then show ?thesis by blast
next
  case (Some e)
  show ?thesis
  proof (cases "e_refs e \<le> 1")
    case True
    with Some show ?thesis by (auto simp: Unref_def)
  next
    case False
    with Some have "trace (Unref h s) = trace s @ map Delete []"
      by (simp add: Unref_def)
    then show ?thesis by blast
  qed
qed

lemma entry_of_Unref_other: "h' \<noteq> h \<Longrightarrow> entry_of (Unref h s) h' = entry_of s h'"
  by (simp add: Unref_def entry_of_def split: option.splits)


lemma entry_of_Unref_last:
  "entry_of s h = Some e \<Longrightarrow> e_refs e \<le> 1 \<Longrightarrow>
   Unref h s = s\<lparr>cache_entries := (cache_entries s)[h := None],
                 trace := trace s @ map Delete (e_deleter e (e_key e) (e_value e))\<rparr>"
  by (simp add: Unref_def)

lemma evict_entry_pinned: "pinned s h e \<Longrightarrow> pinned (evict_entry v s) h e"
proof (cases "entry_of s v")
  case None
  assume "pinned s h e"
  with None show ?thesis by (simp add: evict_entry_def)
next
  case (Some ev)
  assume p: "pinned s h e"
  show ?thesis
  proof (cases "cache_index s (e_key ev) = Some v \<and> e_refs ev = 1")
    case False
    with Some p show ?thesis by (auto simp: evict_entry_def)
  next
    case True
    with Some p have ne: "h \<noteq> v" by (auto simp: pinned_def)
    with True p have k: "e_key e \<noteq> e_key ev" by (auto simp: pinned_def)
    let ?s = "s\<lparr>cache_index := (cache_index s)(e_key ev := None)\<rparr>"
    have "entry_of ?s h = Some e" using p by (simp add: pinned_def entry_of_index_update)
    then have "entry_of (Unref v ?s) h = Some e" using ne by (simp add: entry_of_Unref_other)
    moreover have "cache_index (Unref v ?s) (e_key e) = Some h"
      using p k by (simp add: cache_index_Unref pinned_def)
    ultimately have "pinned (Unref v ?s) h e" using p by (simp add: pinned_def)
    with True Some show ?thesis by (simp add: evict_entry_def)
  qed
qed

lemma fold_evict_entry_pinned: "pinned s h e \<Longrightarrow> pinned (fold evict_entry vs s) h e"
  by (induction vs arbitrary: s) (simp_all add: evict_entry_pinned)

lemma trace_evict_entry: "\<exists>rs. trace (evict_entry v s) = trace s @ map Delete rs"
proof (cases "entry_of s v")
  case None
  then have "trace (evict_entry v s) = trace s @ map Delete []" by (simp add: evict_entry_def)
  then show ?thesis by blast
next
  case (Some ev)
  show ?thesis
  proof (cases "cache_index s (e_key ev) = Some v \<and> e_refs ev = 1")
    case False
    with Some have "trace (evict_entry v s) = trace s @ map Delete []" by (auto simp: evict_entry_def)
    then show ?thesis by blast
  next
    case True
    with Some show ?thesis
      using trace_Unref [of v "s\<lparr>cache_index := (cache_index s)(e_key ev := None)\<rparr>"]
      by (simp add: evict_entry_def)
  qed
qed

lemma trace_fold_evict_entry: "\<exists>rs. trace (fold evict_entry vs s) = trace s @ map Delete rs"
proof (induction vs arbitrary: s)
  case Nil
  have "trace (fold evict_entry [] s) = trace s @ map Delete []" by simp
  then show ?case by blast
next
  case (Cons v vs)
  obtain r1 where r1: "trace (evict_entry v s) = trace s @ map Delete r1"
    using trace_evict_entry by blast
  obtain r2 where "trace (fold evict_entry vs (evict_entry v s)) = trace (evict_entry v s) @ map Delete r2"
    using Cons.IH by blast
  with r1 have "trace (fold evict_entry (v # vs) s) = trace s @ map Delete (r1 @ r2)" by simp
  then show ?case by blast
qed

lemma length_evict_entry: "length (cache_entries (evict_entry v s)) = length (cache_entries s)"
  by (simp add: evict_entry_def length_Unref split: option.splits)

lemma length_fold_evict_entry: "length (cache_entries (fold evict_entry vs s)) = length (cache_entries s)"
  by (induction vs arbitrary: s) (simp_all add: length_evict_entry)

lemma Cache_Insert_result:
  assumes "Cache_Insert victims key v c d s0 = (h, s')"
  shows "h = length (cache_entries s0) \<and>
         pinned s' h \<lparr>e_key = key, e_value = v, e_charge = c, e_deleter = d, e_refs = 2\<rparr> \<and>
         length (cache_entries s') = Suc (length (cache_entries s0)) \<and>
         (\<exists>rs. trace s' = trace s0 @ CacheInsert key (tf_file v) (tf_table v) c # map Delete rs)"
proof -
  let ?e = "\<lparr>e_key = key, e_value = v, e_charge = c, e_deleter = d, e_refs = 2\<rparr>"
  define s1 where "s1 = emit (CacheInsert key (tf_file v) (tf_table v) c) s0"
  define s2 where "s2 = (case cache_index s1 key of None \<Rightarrow> s1 | Some old \<Rightarrow> Unref old s1)"
  define s3 where "s3 = s2\<lparr>cache_entries := cache_entries s2 @ [Some ?e],
                            cache_index := (cache_index s2)(key := Some (length (cache_entries s1)))\<rparr>"
  have "Cache_Insert victims key v c d s0 =
          (length (cache_entries s1), fold evict_entry (victims s3) s3)"
    unfolding Cache_Insert_def Let_def s3_def s2_def s1_def by (rule refl)
  with assms have res: "h = length (cache_entries s1)" "s' = fold evict_entry (victims s3) s3"
    by simp_all
  have l1: "length (cache_entries s1) = length (cache_entries s0)"
    by (simp add: s1_def cache_entries_emit)
  have l2: "length (cache_entries s2) = length (cache_entries s1)"
    by (simp add: s2_def length_Unref split: option.splits)
  obtain r2 where t2: "trace s2 = trace s1 @ map Delete r2"
  proof (cases "cache_index s1 key")
    case None
    then have "trace s2 = trace s1 @ map Delete []" by (simp add: s2_def)
    then show ?thesis using that by blast
  next
    case (Some old)
    then show ?thesis using trace_Unref [of old s1] that by (auto simp: s2_def)
  qed
  have t3: "trace s3 = trace s0 @ CacheInsert key (tf_file v) (tf_table v) c # map Delete r2"
    using t2 by (simp add: s3_def s1_def trace_emit)
  have "pinned s3 h ?e"
    using l2 [symmetric] by (simp add: pinned_def entry_of_def s3_def res(1))
  then have p: "pinned s' h ?e"
    unfolding res(2) by (rule fold_evict_entry_pinned)
  obtain r3 where "trace s' = trace s3 @ map Delete r3"
    unfolding res(2) using trace_fold_evict_entry by blast
  with t3 have "trace s' = trace s0 @ CacheInsert key (tf_file v) (tf_table v) c # map Delete (r2 @ r3)"
    by simp
  then have t: "\<exists>rs. trace s' = trace s0 @ CacheInsert key (tf_file v) (tf_table v) c # map Delete rs"
    by blast
  have "length (cache_entries s') = Suc (length (cache_entries s0))"
    unfolding res(2) using l1 l2 by (simp add: length_fold_evict_entry s3_def)
  with res(1) l1 p t show ?thesis by simp
qed

lemma fst_Cache_Insert:
  "fst (Cache_Insert victims key v c d s0) = length (cache_entries s0)"
  using Cache_Insert_result [of victims key v c d s0] by (cases "Cache_Insert victims key v c d s0") simp

lemma Cache_Lookup_hit:
  assumes "cache_index s key = Some h" and "entry_of s h = Some e"
  shows "Cache_Lookup key s =
           (Some h, s\<lparr>cache_entries := (cache_entries s)[h := Some (e\<lparr>e_refs := Suc (e_refs e)\<rparr>)],
                      trace := trace s @ [CacheLookup key]\<rparr>)"
  using assms
  by (simp add: Cache_Lookup_def Let_def cache_index_emit entry_of_emit) (simp add: emit_def)


lemma Cache_Lookup_None:
  assumes "fst (Cache_Lookup key s) = None"
  shows "Cache_Lookup key s = (None, emit (CacheLookup key) s)"
  using assms by (auto simp: Cache_Lookup_def Let_def split: option.splits)

lemma Cache_Lookup_Some:
  assumes "fst (Cache_Lookup key s) = Some h"
  shows "\<exists>e. cache_index s key = Some h \<and> entry_of s h = Some e"
  using assms
  by (auto simp: Cache_Lookup_def Let_def cache_index_emit entry_of_emit split: option.splits)

lemma Cache_Value_Some: "entry_of s h = Some e \<Longrightarrow> Cache_Value s h = Some (e_value e)"
  by (simp add: Cache_Value_def)








text \<open>
  What an eviction pass deletes: only what the destructors of entries of record without
  outstanding Reference Handle delete.
\<close>

lemma evict_entry_deletes:
  "\<exists>rs. trace (evict_entry v s) = trace s @ map Delete rs \<and>
        (\<forall>r \<in> set rs. \<exists>e. entry_of s v = Some e \<and> e_refs e = 1 \<and>
             cache_index s (e_key e) = Some v \<and> r \<in> set (e_deleter e (e_key e) (e_value e))) \<and>
        (\<forall>h e. entry_of (evict_entry v s) h = Some e \<longrightarrow> entry_of s h = Some e) \<and>
        (\<forall>k h. cache_index (evict_entry v s) k = Some h \<longrightarrow> cache_index s k = Some h)"
proof (cases "entry_of s v")
  case None
  then have "evict_entry v s = s" by (simp add: evict_entry_def)
  then have "trace (evict_entry v s) = trace s @ map Delete [] \<and>
        (\<forall>r \<in> set []. \<exists>e. entry_of s v = Some e \<and> e_refs e = 1 \<and>
             cache_index s (e_key e) = Some v \<and> r \<in> set (e_deleter e (e_key e) (e_value e))) \<and>
        (\<forall>h e. entry_of (evict_entry v s) h = Some e \<longrightarrow> entry_of s h = Some e) \<and>
        (\<forall>k h. cache_index (evict_entry v s) k = Some h \<longrightarrow> cache_index s k = Some h)"
    by simp
  then show ?thesis by blast
next
  case (Some ev)
  show ?thesis
  proof (cases "cache_index s (e_key ev) = Some v \<and> e_refs ev = 1")
    case False
    with Some have "evict_entry v s = s" by (auto simp: evict_entry_def)
    then have "trace (evict_entry v s) = trace s @ map Delete [] \<and>
        (\<forall>r \<in> set []. \<exists>e. entry_of s v = Some e \<and> e_refs e = 1 \<and>
             cache_index s (e_key e) = Some v \<and> r \<in> set (e_deleter e (e_key e) (e_value e))) \<and>
        (\<forall>h e. entry_of (evict_entry v s) h = Some e \<longrightarrow> entry_of s h = Some e) \<and>
        (\<forall>k h. cache_index (evict_entry v s) k = Some h \<longrightarrow> cache_index s k = Some h)"
      by simp
    then show ?thesis by blast
  next
    case True
    let ?s = "s\<lparr>cache_index := (cache_index s)(e_key ev := None)\<rparr>"
    let ?rs = "e_deleter ev (e_key ev) (e_value ev)"
    have e: "entry_of ?s v = Some ev"
      using Some by (simp add: entry_of_index_update)
    have le: "e_refs ev \<le> 1" using True by simp
    have ev: "evict_entry v s =
        ?s\<lparr>cache_entries := (cache_entries ?s)[v := None], trace := trace ?s @ map Delete ?rs\<rparr>"
      using True Some entry_of_Unref_last [OF e le] by (simp add: evict_entry_def)
    have t: "trace (evict_entry v s) = trace s @ map Delete ?rs"
      by (simp add: ev)
    have r: "\<forall>r \<in> set ?rs. \<exists>e. entry_of s v = Some e \<and> e_refs e = 1 \<and>
             cache_index s (e_key e) = Some v \<and> r \<in> set (e_deleter e (e_key e) (e_value e))"
      using True Some by simp
    have en: "entry_of s h = Some e" if "entry_of (evict_entry v s) h = Some e" for h e
      using that by (cases "h = v") (auto simp: ev entry_of_def split: if_splits)
    have ix: "cache_index s k = Some h" if "cache_index (evict_entry v s) k = Some h" for k h
      using that by (auto simp: ev split: if_splits)
    from t r en ix show ?thesis by blast
  qed
qed

lemma fold_evict_entry_deletes:
  "\<exists>rs. trace (fold evict_entry vs s) = trace s @ map Delete rs \<and>
        (\<forall>r \<in> set rs. \<exists>v e. entry_of s v = Some e \<and> e_refs e = 1 \<and>
             cache_index s (e_key e) = Some v \<and> r \<in> set (e_deleter e (e_key e) (e_value e)))"
proof (induction vs arbitrary: s)
  case Nil
  have "trace (fold evict_entry [] s) = trace s @ map Delete [] \<and>
        (\<forall>r \<in> set []. \<exists>v e. entry_of s v = Some e \<and> e_refs e = 1 \<and>
             cache_index s (e_key e) = Some v \<and> r \<in> set (e_deleter e (e_key e) (e_value e)))"
    by simp
  then show ?case by blast
next
  case (Cons v vs)
  let ?s1 = "evict_entry v s"
  from evict_entry_deletes [of v s] obtain r1 where
    t1: "trace ?s1 = trace s @ map Delete r1"
    and d1: "\<forall>r \<in> set r1. \<exists>e. entry_of s v = Some e \<and> e_refs e = 1 \<and>
             cache_index s (e_key e) = Some v \<and> r \<in> set (e_deleter e (e_key e) (e_value e))"
    and en: "\<forall>h e. entry_of ?s1 h = Some e \<longrightarrow> entry_of s h = Some e"
    and ix: "\<forall>k h. cache_index ?s1 k = Some h \<longrightarrow> cache_index s k = Some h"
    by blast
  from Cons.IH [of ?s1] obtain r2 where
    t2: "trace (fold evict_entry vs ?s1) = trace ?s1 @ map Delete r2"
    and d2: "\<forall>r \<in> set r2. \<exists>v e. entry_of ?s1 v = Some e \<and> e_refs e = 1 \<and>
             cache_index ?s1 (e_key e) = Some v \<and> r \<in> set (e_deleter e (e_key e) (e_value e))"
    by blast
  have t: "trace (fold evict_entry (v # vs) s) = trace s @ map Delete (r1 @ r2)"
    using t1 t2 by simp
  have d: "\<exists>v e. entry_of s v = Some e \<and> e_refs e = 1 \<and>
             cache_index s (e_key e) = Some v \<and> r \<in> set (e_deleter e (e_key e) (e_value e))"
    if "r \<in> set (r1 @ r2)" for r
  proof (cases "r \<in> set r1")
    case True
    with d1 show ?thesis by blast
  next
    case False
    with that have "r \<in> set r2" by simp
    with d2 obtain v' e where "entry_of ?s1 v' = Some e" "e_refs e = 1"
      "cache_index ?s1 (e_key e) = Some v'" "r \<in> set (e_deleter e (e_key e) (e_value e))"
      by blast
    with en ix show ?thesis by blast
  qed
  from t d show ?case by blast
qed

text \<open>
  An insertion under a key that has no live entry of record: nothing is displaced, and
  what is deleted is deleted by the eviction of entries that were in the cache before,
  without outstanding Reference Handle.
\<close>

lemma Cache_Insert_fresh:
  assumes "fst (Cache_Lookup key s0) = None"
  shows "\<exists>rs. trace (snd (Cache_Insert victims key v c d s0)) =
              trace s0 @ CacheInsert key (tf_file v) (tf_table v) c # map Delete rs \<and>
            (\<forall>r \<in> set rs. \<exists>h e. entry_of s0 h = Some e \<and> e_refs e = 1 \<and>
               cache_index s0 (e_key e) = Some h \<and> r \<in> set (e_deleter e (e_key e) (e_value e)))"
proof -
  let ?new = "\<lparr>e_key = key, e_value = v, e_charge = c, e_deleter = d, e_refs = 2\<rparr>"
  define s1 where "s1 = emit (CacheInsert key (tf_file v) (tf_table v) c) s0"
  define s2 where "s2 = (case cache_index s1 key of None \<Rightarrow> s1 | Some old \<Rightarrow> Unref old s1)"
  define s3 where "s3 = s2\<lparr>cache_entries := cache_entries s2 @ [Some ?new],
                            cache_index := (cache_index s2)(key := Some (length (cache_entries s1)))\<rparr>"
  have ci: "Cache_Insert victims key v c d s0 =
          (length (cache_entries s1), fold evict_entry (victims s3) s3)"
    unfolding Cache_Insert_def Let_def s3_def s2_def s1_def by (rule refl)
  have dead: "entry_of s0 old = None" if "cache_index s0 key = Some old" for old
    using assms that
    by (auto simp: Cache_Lookup_def Let_def cache_index_emit entry_of_emit split: option.splits)
  have s2: "s2 = s1"
  proof (cases "cache_index s1 key")
    case None
    then show ?thesis by (simp add: s2_def)
  next
    case (Some old)
    then have "entry_of s1 old = None"
      using dead [of old] by (simp add: s1_def cache_index_emit entry_of_emit)
    with Some show ?thesis by (simp add: s2_def Unref_def)
  qed
  have t3: "trace s3 = trace s0 @ [CacheInsert key (tf_file v) (tf_table v) c]"
    by (simp add: s3_def s2 s1_def trace_emit)
  have l: "length (cache_entries s1) = length (cache_entries s0)"
    by (simp add: s1_def cache_entries_emit)
  have en: "entry_of s0 h = Some e \<and> cache_index s0 (e_key e) = Some h"
    if a: "entry_of s3 h = Some e" "e_refs e = 1" "cache_index s3 (e_key e) = Some h" for h e
  proof -
    have hl: "h \<le> length (cache_entries s0)"
      using a(1) l by (simp add: entry_of_def s3_def s2 split: if_splits) 
    have "h \<noteq> length (cache_entries s0)"
    proof
      assume "h = length (cache_entries s0)"
      then have "entry_of s3 h = Some ?new"
        using l by (simp add: entry_of_def s3_def s2 s1_def emit_def)
      with a(1) have "e = ?new" by simp
      then have "e_refs e = 2" by simp
      with a(2) show False by simp
    qed
    with hl have h: "h < length (cache_entries s0)" by simp
    then have e0: "entry_of s0 h = Some e"
      using a(1) l by (simp add: entry_of_def s3_def s2 s1_def emit_def nth_append)
    have "e_key e \<noteq> key"
      using a(3) h l by (auto simp: s3_def s2)
    then have "cache_index s0 (e_key e) = Some h"
      using a(3) by (simp add: s3_def s2 s1_def emit_def)
    with e0 show ?thesis by simp
  qed
  from fold_evict_entry_deletes [of "victims s3" s3] obtain rs where
    t: "trace (fold evict_entry (victims s3) s3) = trace s3 @ map Delete rs"
    and d: "\<forall>r \<in> set rs. \<exists>h e. entry_of s3 h = Some e \<and> e_refs e = 1 \<and>
             cache_index s3 (e_key e) = Some h \<and> r \<in> set (e_deleter e (e_key e) (e_value e))"
    by blast
  have "trace (snd (Cache_Insert victims key v c d s0)) =
              trace s0 @ CacheInsert key (tf_file v) (tf_table v) c # map Delete rs"
    using t t3 by (simp add: ci)
  moreover have "\<forall>r \<in> set rs. \<exists>h e. entry_of s0 h = Some e \<and> e_refs e = 1 \<and>
               cache_index s0 (e_key e) = Some h \<and> r \<in> set (e_deleter e (e_key e) (e_value e))"
  proof
    fix r assume "r \<in> set rs"
    with d obtain h e where x: "entry_of s3 h = Some e" "e_refs e = 1"
      "cache_index s3 (e_key e) = Some h" "r \<in> set (e_deleter e (e_key e) (e_value e))"
      by blast
    from en [OF x(1,2,3)] x(2,4)
    show "\<exists>h e. entry_of s0 h = Some e \<and> e_refs e = 1 \<and>
               cache_index s0 (e_key e) = Some h \<and> r \<in> set (e_deleter e (e_key e) (e_value e))"
      by blast
  qed
  ultimately show ?thesis by blast
qed

section \<open>Probing the directories\<close>

lemma dir_status_failed:
  "dir_status tc ext fn fs d \<noteq> OK \<longleftrightarrow> (\<exists>e. fst (probe_dir tc ext fn fs d) = Inl e)"
  by (simp add: dir_status_def split: sum.splits)

lemma dir_status_Inl:
  "fst (probe_dir tc ext fn fs d) = Inl e \<Longrightarrow> dir_status tc ext fn fs d = Failed e"
  by (simp add: dir_status_def)

lemma probe_dir_both_missing:
  assumes "tc_env tc (TableFileName (number_string ext) dir fn) = Inl e1"
    and "tc_env tc (SSTTableFileName (number_string ext) dir fn) = Inl e2"
  shows "probe_dir tc ext fn fs dir =
           (Inl e1, [NewRandomAccessFile (TableFileName (number_string ext) dir fn),
                     NewRandomAccessFile (SSTTableFileName (number_string ext) dir fn)])"
  using assms by (simp add: probe_dir_def Let_def)

lemma probe_dir_current:
  assumes "tc_env tc (TableFileName (number_string ext) dir fn) = Inr f"
  shows "probe_dir tc ext fn fs dir =
           (case Table_Open ext f fs of
              Inr t \<Rightarrow> (Inr \<lparr>tf_file = f, tf_table = t\<rparr>,
                        [NewRandomAccessFile (TableFileName (number_string ext) dir fn),
                         TableOpen f fs])
            | Inl e \<Rightarrow> (Inl e,
                        [NewRandomAccessFile (TableFileName (number_string ext) dir fn),
                         TableOpen f fs, Delete (FileObject f)]))"
  using assms by (simp add: probe_dir_def Let_def split: sum.splits)

lemma probe_dir_legacy:
  assumes "tc_env tc (TableFileName (number_string ext) dir fn) = Inl e"
    and "tc_env tc (SSTTableFileName (number_string ext) dir fn) = Inr f"
  shows "probe_dir tc ext fn fs dir =
           (case Table_Open ext f fs of
              Inr t \<Rightarrow> (Inr \<lparr>tf_file = f, tf_table = t\<rparr>,
                        [NewRandomAccessFile (TableFileName (number_string ext) dir fn),
                         NewRandomAccessFile (SSTTableFileName (number_string ext) dir fn),
                         TableOpen f fs])
            | Inl e' \<Rightarrow> (Inl e',
                        [NewRandomAccessFile (TableFileName (number_string ext) dir fn),
                         NewRandomAccessFile (SSTTableFileName (number_string ext) dir fn),
                         TableOpen f fs, Delete (FileObject f)]))"
  using assms by (simp add: probe_dir_def Let_def split: sum.splits)

lemma probe_dir_first_call:
  "\<exists>calls. snd (probe_dir tc ext fn fs dir) =
     NewRandomAccessFile (TableFileName (number_string ext) dir fn) # calls"
  by (simp add: probe_dir_def Let_def split: sum.splits)

lemma probe_dir_Inr:
  assumes "fst (probe_dir tc ext fn fs dir) = Inr tf"
  shows "Table_Open ext (tf_file tf) fs = Inr (tf_table tf) \<and>
         (tc_env tc (TableFileName (number_string ext) dir fn) = Inr (tf_file tf) \<or>
          (\<exists>e. tc_env tc (TableFileName (number_string ext) dir fn) = Inl e \<and>
               tc_env tc (SSTTableFileName (number_string ext) dir fn) = Inr (tf_file tf)))"
  using assms by (auto simp: probe_dir_def Let_def split: sum.splits)

lemma probe_events_Nil: "probe_events tc ext fn fs [] = []"
  by (simp add: probe_events_def)

lemma probe_events_Cons:
  "probe_events tc ext fn fs (d # ds) = snd (probe_dir tc ext fn fs d) @ probe_events tc ext fn fs ds"
  by (simp add: probe_events_def)

lemma probe_events_append:
  "probe_events tc ext fn fs (xs @ ys) = probe_events tc ext fn fs xs @ probe_events tc ext fn fs ys"
  by (simp add: probe_events_def)

lemma probe_dirs_all_fail:
  assumes "\<forall>d \<in> set dirs. dir_status tc ext fn fs d \<noteq> OK"
  shows "probe_dirs tc ext fn fs key dirs st s =
           ((if dirs = [] then st else dir_status tc ext fn fs (last dirs), None),
            s\<lparr>trace := trace s @ probe_events tc ext fn fs dirs\<rparr>)"
  using assms
proof (induction dirs arbitrary: st s)
  case Nil
  show ?case by (simp add: probe_events_Nil)
next
  case (Cons d ds)
  from Cons.prems obtain e where e: "fst (probe_dir tc ext fn fs d) = Inl e"
    by (auto simp: dir_status_failed)
  then obtain calls where pd: "probe_dir tc ext fn fs d = (Inl e, calls)"
    by (cases "probe_dir tc ext fn fs d") simp
  have ih: "probe_dirs tc ext fn fs key ds (Failed e) (s\<lparr>trace := trace s @ calls\<rparr>) =
          ((if ds = [] then Failed e else dir_status tc ext fn fs (last ds), None),
           s\<lparr>trace := trace s @ calls @ probe_events tc ext fn fs ds\<rparr>)"
    using Cons.IH [of "Failed e" "s\<lparr>trace := trace s @ calls\<rparr>"] Cons.prems by simp
  show ?case
    using pd ih dir_status_Inl [OF e] by (simp add: probe_events_Cons)
qed

lemma probe_dirs_success:
  assumes "\<forall>x \<in> set pre. dir_status tc ext fn fs x \<noteq> OK"
    and "fst (probe_dir tc ext fn fs d) = Inr tf"
  shows "probe_dirs tc ext fn fs key (pre @ d # post) st s =
           ((OK, Some (fst (Cache_Insert (tc_cache tc) key tf 1 DeleteEntry
                        (s\<lparr>trace := trace s @ probe_events tc ext fn fs (pre @ [d])\<rparr>)))),
            snd (Cache_Insert (tc_cache tc) key tf 1 DeleteEntry
                        (s\<lparr>trace := trace s @ probe_events tc ext fn fs (pre @ [d])\<rparr>)))"
  using assms(1)
proof (induction pre arbitrary: st s)
  case Nil
  obtain calls where pd: "probe_dir tc ext fn fs d = (Inr tf, calls)"
    using assms(2) by (cases "probe_dir tc ext fn fs d") simp
  then show ?case
    by (simp add: probe_events_Cons probe_events_Nil split: prod.splits)
next
  case (Cons x xs)
  from Cons.prems obtain e where e: "fst (probe_dir tc ext fn fs x) = Inl e"
    by (auto simp: dir_status_failed)
  then obtain calls where pd: "probe_dir tc ext fn fs x = (Inl e, calls)"
    by (cases "probe_dir tc ext fn fs x") simp
  show ?case
    using pd Cons.IH [of "Failed e" "s\<lparr>trace := trace s @ calls\<rparr>"] Cons.prems
    by (simp add: probe_events_Cons)
qed

lemma probe_dirs_cases:
  "(\<forall>d \<in> set dirs. dir_status tc ext fn fs d \<noteq> OK) \<or>
   (\<exists>pre d post tf. dirs = pre @ d # post \<and> (\<forall>x \<in> set pre. dir_status tc ext fn fs x \<noteq> OK) \<and>
        fst (probe_dir tc ext fn fs d) = Inr tf)"
proof (cases "\<forall>d \<in> set dirs. dir_status tc ext fn fs d \<noteq> OK")
  case True
  then show ?thesis by blast
next
  case False
  then have "\<exists>d \<in> set dirs. dir_status tc ext fn fs d = OK" by blast
  then obtain pre d post where sp: "dirs = pre @ d # post" "dir_status tc ext fn fs d = OK"
    "\<forall>x \<in> set pre. dir_status tc ext fn fs x \<noteq> OK"
    using split_list_first_prop [of dirs "\<lambda>d. dir_status tc ext fn fs d = OK"] by blast
  from sp(2) obtain tf where "fst (probe_dir tc ext fn fs d) = Inr tf"
    by (auto simp: dir_status_def split: sum.splits)
  with sp show ?thesis by blast
qed


text \<open>The loop body does what the specification prescribes for a directory.\<close>

lemma snd_probe_dir: "snd (probe_dir tc ext fn fs dir) = dir_calls tc ext fn fs dir"
  by (simp add: probe_dir_def dir_calls_def dir_opened_def Let_def split: sum.splits)

lemma fst_probe_dir_Inr:
  "fst (probe_dir tc ext fn fs dir) = Inr \<lparr>tf_file = f, tf_table = t\<rparr> \<longleftrightarrow>
     dir_succeeds tc ext fn fs dir f t"
  by (auto simp: probe_dir_def dir_succeeds_def dir_opened_def Let_def split: sum.splits)

lemma dir_status_fails:
  "dir_status tc ext fn fs dir \<noteq> OK \<longleftrightarrow> (\<forall>f t. \<not> dir_succeeds tc ext fn fs dir f t)"
proof
  assume "dir_status tc ext fn fs dir \<noteq> OK"
  then obtain e where e: "fst (probe_dir tc ext fn fs dir) = Inl e"
    by (auto simp: dir_status_failed)
  show "\<forall>f t. \<not> dir_succeeds tc ext fn fs dir f t"
    using e by (simp add: fst_probe_dir_Inr [symmetric])
next
  assume a: "\<forall>f t. \<not> dir_succeeds tc ext fn fs dir f t"
  show "dir_status tc ext fn fs dir \<noteq> OK"
  proof
    assume "dir_status tc ext fn fs dir = OK"
    then obtain tf where "fst (probe_dir tc ext fn fs dir) = Inr tf"
      by (auto simp: dir_status_def split: sum.splits)
    then have "fst (probe_dir tc ext fn fs dir) = Inr \<lparr>tf_file = tf_file tf, tf_table = tf_table tf\<rparr>"
      by simp
    with a show False by (simp only: fst_probe_dir_Inr)
  qed
qed

lemma probe_events_dir_calls:
  "probe_events tc ext fn fs dirs = concat (map (dir_calls tc ext fn fs) dirs)"
  by (simp add: probe_events_def snd_probe_dir)

lemma dir_calls_current:
  "tc_env tc (TableFileName (number_string ext) dir fn) = Inr f \<Longrightarrow>
   dir_calls tc ext fn fs dir =
     NewRandomAccessFile (TableFileName (number_string ext) dir fn) # TableOpen f fs #
     (if isl (Table_Open ext f fs) then [Delete (FileObject f)] else [])"
  by (simp add: dir_calls_def dir_opened_def)

lemma dir_calls_legacy:
  "tc_env tc (TableFileName (number_string ext) dir fn) = Inl e \<Longrightarrow>
   tc_env tc (SSTTableFileName (number_string ext) dir fn) = Inr f \<Longrightarrow>
   dir_calls tc ext fn fs dir =
     NewRandomAccessFile (TableFileName (number_string ext) dir fn) #
     NewRandomAccessFile (SSTTableFileName (number_string ext) dir fn) # TableOpen f fs #
     (if isl (Table_Open ext f fs) then [Delete (FileObject f)] else [])"
  by (simp add: dir_calls_def dir_opened_def)

lemma dir_calls_none:
  "tc_env tc (TableFileName (number_string ext) dir fn) = Inl e \<Longrightarrow>
   tc_env tc (SSTTableFileName (number_string ext) dir fn) = Inl e' \<Longrightarrow>
   dir_calls tc ext fn fs dir =
     [NewRandomAccessFile (TableFileName (number_string ext) dir fn),
      NewRandomAccessFile (SSTTableFileName (number_string ext) dir fn)]"
  by (simp add: dir_calls_def dir_opened_def)

lemma TableFileName_inj: "TableFileName ns d fn = TableFileName ns d' fn \<longleftrightarrow> d = d'"
  by (simp add: TableFileName_def)

lemma SSTTableFileName_inj: "SSTTableFileName ns d fn = SSTTableFileName ns d' fn \<longleftrightarrow> d = d'"
  by (simp add: SSTTableFileName_def)

lemma opens_of_dir_calls:
  "NewRandomAccessFile p \<in> set (dir_calls tc ext fn fs x) \<Longrightarrow>
   p = TableFileName (number_string ext) x fn \<or> p = SSTTableFileName (number_string ext) x fn"
  by (auto simp: dir_calls_def split: option.splits if_splits)

lemma other_dir_not_opened:
  assumes "y \<notin> set dirs"
  shows "NewRandomAccessFile (TableFileName (number_string ext) y fn)
           \<notin> set (concat (map (dir_calls tc ext fn fs) dirs)) \<and>
         NewRandomAccessFile (SSTTableFileName (number_string ext) y fn)
           \<notin> set (concat (map (dir_calls tc ext fn fs) dirs))"
proof -
  have "False" if "x \<in> set dirs"
      "NewRandomAccessFile (TableFileName (number_string ext) y fn) \<in> set (dir_calls tc ext fn fs x)"
    for x
    using opens_of_dir_calls [OF that(2)] that(1) assms
      file_names_differ [of "number_string ext" y fn x fn]
    by (auto simp: TableFileName_inj)
  moreover have "False" if "x \<in> set dirs"
      "NewRandomAccessFile (SSTTableFileName (number_string ext) y fn) \<in> set (dir_calls tc ext fn fs x)"
    for x
    using opens_of_dir_calls [OF that(2)] that(1) assms
      file_names_differ [of "number_string ext" x fn y fn]
    by (auto simp: SSTTableFileName_inj)
  ultimately show ?thesis by auto
qed

lemma distinct_search_dirs: "distinct (search_dirs options dbname fn)"
proof (cases "enable_multi_disk options \<and> data_dirs options \<noteq> []")
  case True
  then show ?thesis by (simp add: search_dirs_multi distinct_drop_repeats)
next
  case False
  then show ?thesis by (simp add: search_dirs_single)
qed

section \<open>FindTable\<close>

lemma FindTable_hit:
  assumes "cache_index s (EncodeFixed64 fn) = Some h" and "entry_of s h = Some e"
  shows "FindTable tc ext fn fs s =
           ((OK, Some h),
            s\<lparr>cache_entries := (cache_entries s)[h := Some (e\<lparr>e_refs := Suc (e_refs e)\<rparr>)],
              trace := trace s @ [CacheLookup (EncodeFixed64 fn)]\<rparr>)"
  by (simp add: FindTable_def Let_def Cache_Lookup_hit [OF assms])

lemma FindTable_miss:
  assumes "fst (Cache_Lookup (EncodeFixed64 fn) s) = None"
  shows "FindTable tc ext fn fs s =
           probe_dirs tc ext fn fs (EncodeFixed64 fn)
             (search_dirs (tc_options tc) (tc_dbname tc) fn)
             (Failed (NotFound ''table file not found''))
             (emit (CacheLookup (EncodeFixed64 fn)) s)"
  by (simp add: FindTable_def Let_def Cache_Lookup_None [OF assms])

lemma FindTable_OK:
  assumes "FindTable tc ext fn fs s = ((OK, hopt), s1)"
  shows "\<exists>h e. hopt = Some h \<and> entry_of s1 h = Some e \<and>
               cache_index s1 (EncodeFixed64 fn) = Some h"
proof (cases "fst (Cache_Lookup (EncodeFixed64 fn) s)")
  case (Some h)
  then obtain e where c: "cache_index s (EncodeFixed64 fn) = Some h" "entry_of s h = Some e"
    using Cache_Lookup_Some by blast
  then have h: "h < length (cache_entries s)"
    by (simp add: entry_of_def split: if_splits)
  let ?s1 = "s\<lparr>cache_entries := (cache_entries s)[h := Some (e\<lparr>e_refs := Suc (e_refs e)\<rparr>)],
              trace := trace s @ [CacheLookup (EncodeFixed64 fn)]\<rparr>"
  have "((OK, hopt), s1) = ((OK, Some h), ?s1)"
    using assms FindTable_hit [OF c, of tc ext fs] by simp
  then have eq: "hopt = Some h" "s1 = ?s1" by simp_all
  have "entry_of ?s1 h = Some (e\<lparr>e_refs := Suc (e_refs e)\<rparr>)"
    using h by (simp add: entry_of_def)
  moreover have "cache_index ?s1 (EncodeFixed64 fn) = Some h"
    using c(1) by simp
  ultimately show ?thesis
    unfolding eq by blast
next
  case None
  let ?dirs = "search_dirs (tc_options tc) (tc_dbname tc) fn"
  let ?s = "emit (CacheLookup (EncodeFixed64 fn)) s"
  let ?st = "Failed (NotFound ''table file not found'')"
  have ft: "probe_dirs tc ext fn fs (EncodeFixed64 fn) ?dirs ?st ?s = ((OK, hopt), s1)"
    using assms FindTable_miss [OF None] by simp
  consider (fail) "\<forall>d \<in> set ?dirs. dir_status tc ext fn fs d \<noteq> OK"
    | (succ) pre d post tf where "?dirs = pre @ d # post"
        "\<forall>x \<in> set pre. dir_status tc ext fn fs x \<noteq> OK" "fst (probe_dir tc ext fn fs d) = Inr tf"
    using probe_dirs_cases [of ?dirs tc ext fn fs] by blast
  then show ?thesis
  proof cases
    case fail
    have ne: "(if ?dirs = [] then ?st else dir_status tc ext fn fs (last ?dirs)) \<noteq> OK"
      using fail by simp
    have "fst (fst (probe_dirs tc ext fn fs (EncodeFixed64 fn) ?dirs ?st ?s)) =
            (if ?dirs = [] then ?st else dir_status tc ext fn fs (last ?dirs))"
      by (simp only: probe_dirs_all_fail [OF fail] fst_conv)
    with ne ft show ?thesis by simp
  next
    case succ
    let ?s' = "?s\<lparr>trace := trace ?s @ probe_events tc ext fn fs (pre @ [d])\<rparr>"
    obtain h' s' where ins:
      "Cache_Insert (tc_cache tc) (EncodeFixed64 fn) tf 1 DeleteEntry ?s' = (h', s')"
      by (cases "Cache_Insert (tc_cache tc) (EncodeFixed64 fn) tf 1 DeleteEntry ?s'")
    have "probe_dirs tc ext fn fs (EncodeFixed64 fn) ?dirs ?st ?s = ((OK, Some h'), s')"
      by (simp only: succ(1) probe_dirs_success [OF succ(2,3)] ins fst_conv snd_conv)
    with ft have eq: "hopt = Some h'" "s1 = s'" by simp_all
    from Cache_Insert_result [OF ins]
    have "pinned s' h' \<lparr>e_key = EncodeFixed64 fn, e_value = tf, e_charge = 1,
                          e_deleter = DeleteEntry, e_refs = 2\<rparr>"
      by blast
    then have "entry_of s' h' \<noteq> None \<and> cache_index s' (EncodeFixed64 fn) = Some h'"
      by (simp add: pinned_def)
    then show ?thesis
      unfolding eq by blast
  qed
qed

lemma FindTable_status_handle:
  assumes "fst (fst (FindTable tc ext fn fs s)) = OK"
  shows "\<exists>h s1 e. FindTable tc ext fn fs s = ((OK, Some h), s1) \<and> entry_of s1 h = Some e \<and>
           cache_index s1 (EncodeFixed64 fn) = Some h"
proof -
  obtain hopt s1 where "FindTable tc ext fn fs s = ((OK, hopt), s1)"
    using assms by (cases "FindTable tc ext fn fs s") auto
  with FindTable_OK [OF this] show ?thesis by blast
qed

lemma FindTable_some_dir_succeeds:
  assumes "fst (Cache_Lookup (EncodeFixed64 fn) s) = None"
    and "d \<in> set (search_dirs (tc_options tc) (tc_dbname tc) fn)"
    and "fst (probe_dir tc ext fn fs d) = Inr tf"
  shows "\<exists>h. fst (FindTable tc ext fn fs s) = (OK, Some h)"
proof -
  let ?dirs = "search_dirs (tc_options tc) (tc_dbname tc) fn"
  have "dir_status tc ext fn fs d = OK" using assms(3) by (simp add: dir_status_def)
  with assms(2) have "\<not> (\<forall>d \<in> set ?dirs. dir_status tc ext fn fs d \<noteq> OK)" by blast
  then obtain pre d' post tf' where sp: "?dirs = pre @ d' # post"
      "\<forall>x \<in> set pre. dir_status tc ext fn fs x \<noteq> OK" "fst (probe_dir tc ext fn fs d') = Inr tf'"
    using probe_dirs_cases [of ?dirs tc ext fn fs] by blast
  show ?thesis
    by (simp only: FindTable_miss [OF assms(1)] sp(1) probe_dirs_success [OF sp(2,3)] fst_conv)
      blast
qed

lemma Cache_Lookup_trace_update:
  "fst (Cache_Lookup key (s\<lparr>trace := tr\<rparr>)) = fst (Cache_Lookup key s)"
  by (simp add: Cache_Lookup_def Let_def emit_def entry_of_def split: option.splits)

lemma dirs_fail:
  "(\<forall>x \<in> set dirs. dir_status tc ext fn fs x \<noteq> OK) \<longleftrightarrow>
   (\<forall>x \<in> set dirs. \<forall>f t. \<not> dir_succeeds tc ext fn fs x f t)"
  by (simp add: dir_status_fails)

text \<open>FindTable on a miss, when every directory fails: the calls made.\<close>

lemma FindTable_all_fail_state:
  assumes "fst (Cache_Lookup (EncodeFixed64 fn) s) = None"
    and "\<forall>x \<in> set (search_dirs (tc_options tc) (tc_dbname tc) fn).
           \<forall>f t. \<not> dir_succeeds tc ext fn fs x f t"
  shows "snd (fst (FindTable tc ext fn fs s)) = None \<and>
         snd (FindTable tc ext fn fs s) =
           s\<lparr>trace := trace s @ CacheLookup (EncodeFixed64 fn) #
                concat (map (dir_calls tc ext fn fs)
                  (search_dirs (tc_options tc) (tc_dbname tc) fn))\<rparr>"
proof -
  have f: "\<forall>x \<in> set (search_dirs (tc_options tc) (tc_dbname tc) fn). dir_status tc ext fn fs x \<noteq> OK"
    using assms(2) by (simp only: dirs_fail)
  show ?thesis
    by (simp add: FindTable_miss [OF assms(1)] probe_dirs_all_fail [OF f] probe_events_dir_calls
        emit_def)
qed

text \<open>FindTable on a miss, when a directory succeeds after others have failed.\<close>

lemma FindTable_first_success:
  assumes miss: "fst (Cache_Lookup (EncodeFixed64 fn) s) = None"
    and path: "search_dirs (tc_options tc) (tc_dbname tc) fn = pre @ d # post"
    and fails: "\<forall>x \<in> set pre. \<forall>f' t'. \<not> dir_succeeds tc ext fn fs x f' t'"
    and succ: "dir_succeeds tc ext fn fs d f t"
  shows "\<exists>s' rs.
           FindTable tc ext fn fs s = ((OK, Some (length (cache_entries s))), s') \<and>
           s' = snd (Cache_Insert (tc_cache tc) (EncodeFixed64 fn) \<lparr>tf_file = f, tf_table = t\<rparr> 1
                  DeleteEntry
                  (s\<lparr>trace := trace s @ CacheLookup (EncodeFixed64 fn) #
                       concat (map (dir_calls tc ext fn fs) (pre @ [d]))\<rparr>)) \<and>
           entry_of s' (length (cache_entries s)) =
             Some \<lparr>e_key = EncodeFixed64 fn, e_value = \<lparr>tf_file = f, tf_table = t\<rparr>,
                   e_charge = 1, e_deleter = DeleteEntry, e_refs = 2\<rparr> \<and>
           cache_index s' (EncodeFixed64 fn) = Some (length (cache_entries s)) \<and>
           trace s' = trace s @ CacheLookup (EncodeFixed64 fn) #
             concat (map (dir_calls tc ext fn fs) (pre @ [d])) @
             CacheInsert (EncodeFixed64 fn) f t 1 # map Delete rs \<and>
           (\<forall>r \<in> set rs. \<exists>h e. entry_of s h = Some e \<and> e_refs e = 1 \<and>
               cache_index s (e_key e) = Some h \<and> r \<in> set (e_deleter e (e_key e) (e_value e)))"
proof -
  let ?key = "EncodeFixed64 fn"
  let ?tf = "\<lparr>tf_file = f, tf_table = t\<rparr>"
  let ?init = "s\<lparr>trace := trace s @ CacheLookup ?key #
               concat (map (dir_calls tc ext fn fs) (pre @ [d]))\<rparr>"
  let ?lk = "emit (CacheLookup ?key) s"
  have s0: "?lk\<lparr>trace := trace ?lk @ probe_events tc ext fn fs (pre @ [d])\<rparr> = ?init"
    by (simp add: emit_def probe_events_dir_calls)
  have f: "\<forall>x \<in> set pre. dir_status tc ext fn fs x \<noteq> OK"
    using fails by (simp only: dirs_fail)
  have p: "fst (probe_dir tc ext fn fs d) = Inr ?tf"
    using succ by (simp only: fst_probe_dir_Inr)
  obtain h s' where ins: "Cache_Insert (tc_cache tc) ?key ?tf 1 DeleteEntry ?init = (h, s')"
    by (cases "Cache_Insert (tc_cache tc) ?key ?tf 1 DeleteEntry ?init")
  have ft: "FindTable tc ext fn fs s = ((OK, Some h), s')"
    by (simp only: FindTable_miss [OF miss] path probe_dirs_success [OF f p] s0 ins
        fst_conv snd_conv)
  have h: "h = length (cache_entries s)"
    using Cache_Insert_result [OF ins] by simp
  have pin: "pinned s' h \<lparr>e_key = ?key, e_value = ?tf, e_charge = 1,
                          e_deleter = DeleteEntry, e_refs = 2\<rparr>"
    using Cache_Insert_result [OF ins] by blast
  have m0: "fst (Cache_Lookup ?key ?init) = None"
    using miss by (simp only: Cache_Lookup_trace_update)
  from Cache_Insert_fresh [OF m0, of "tc_cache tc" ?tf 1 DeleteEntry] obtain rs where
    t0: "trace (snd (Cache_Insert (tc_cache tc) ?key ?tf 1 DeleteEntry ?init)) =
           trace ?init @ CacheInsert ?key (tf_file ?tf) (tf_table ?tf) 1 # map Delete rs"
    and r: "\<forall>r \<in> set rs. \<exists>h e. entry_of ?init h = Some e \<and> e_refs e = 1 \<and>
               cache_index ?init (e_key e) = Some h \<and> r \<in> set (e_deleter e (e_key e) (e_value e))"
    by blast
  have sn: "snd (Cache_Insert (tc_cache tc) ?key ?tf 1 DeleteEntry ?init) = s'"
    by (simp only: ins snd_conv)
  have t: "trace s' = trace ?init @ CacheInsert ?key f t 1 # map Delete rs"
    using t0 unfolding sn by simp
  have r': "\<forall>r \<in> set rs. \<exists>h e. entry_of s h = Some e \<and> e_refs e = 1 \<and>
               cache_index s (e_key e) = Some h \<and> r \<in> set (e_deleter e (e_key e) (e_value e))"
    using r by (simp add: entry_of_trace_update)
  have t': "trace s' = trace s @ CacheLookup ?key #
             concat (map (dir_calls tc ext fn fs) (pre @ [d])) @
             CacheInsert ?key f t 1 # map Delete rs"
    using t by simp
  have s': "s' = snd (Cache_Insert (tc_cache tc) ?key ?tf 1 DeleteEntry ?init)"
    by (simp only: sn)
  show ?thesis
    using ft s' pin t' r' unfolding h pinned_def
    by (intro exI [of _ s'] exI [of _ rs]) simp
qed

lemma first_success_split:
  assumes "d \<in> set dirs" and "dir_succeeds tc ext fn fs d f t"
  shows "\<exists>pre d' post f' t'. dirs = pre @ d' # post \<and>
           (\<forall>x \<in> set pre. \<forall>f t. \<not> dir_succeeds tc ext fn fs x f t) \<and>
           dir_succeeds tc ext fn fs d' f' t' \<and> d \<in> set (d' # post)"
proof -
  let ?P = "\<lambda>x. \<exists>f t. dir_succeeds tc ext fn fs x f t"
  have "\<exists>x \<in> set dirs. ?P x" using assms by blast
  then obtain pre d' post where sp: "dirs = pre @ d' # post" "?P d'" "\<forall>x \<in> set pre. \<not> ?P x"
    using split_list_first_prop [of dirs ?P] by blast
  have "d \<notin> set pre" using sp(3) assms(2) by blast
  with assms(1) sp(1) have "d \<in> set (d' # post)" by auto
  with sp show ?thesis by blast
qed

lemma dir_succeeds_unique:
  "dir_succeeds tc ext fn fs d f t \<Longrightarrow> dir_succeeds tc ext fn fs d f' t' \<Longrightarrow> f' = f \<and> t' = t"
  by (auto simp: dir_succeeds_def)

lemma dir_succeeds_env:
  "dir_succeeds tc ext fn fs d f t \<longleftrightarrow>
     (tc_env tc (TableFileName (number_string ext) d fn) = Inr f \<or>
      isl (tc_env tc (TableFileName (number_string ext) d fn)) \<and>
      tc_env tc (SSTTableFileName (number_string ext) d fn) = Inr f) \<and>
     Table_Open ext f fs = Inr t"
  by (auto simp: dir_succeeds_def dir_opened_def split: sum.splits)

section \<open>Releases and iterators\<close>

lemma releases_append: "releases h (xs @ ys) = releases h xs + releases h ys"
  by (simp add: releases_def)

lemma releases_Delete: "releases h (map Delete rs) = 0"
  by (induction rs) (simp_all add: releases_def)

lemma releases_Nil: "releases h [] = 0"
  by (simp add: releases_def)

lemma releases_Cons:
  "releases h (ev # tr) = (if ev = CacheRelease h then Suc (releases h tr) else releases h tr)"
  by (simp add: releases_def)

lemma releases_probe_dir: "releases h (snd (probe_dir tc ext fn fs d)) = 0"
  by (simp add: probe_dir_def Let_def releases_def split: sum.splits)

lemma releases_probe_events: "releases h (probe_events tc ext fn fs ds) = 0"
  by (induction ds) (simp_all add: probe_events_Nil probe_events_Cons releases_append
      releases_probe_dir releases_Nil)

lemma releases_Cache_Release:
  "releases h' (trace (Cache_Release h s)) =
     (if h' = h then Suc (releases h' (trace s)) else releases h' (trace s))"
proof -
  obtain rs where "trace (Cache_Release h s) = trace s @ [CacheRelease h] @ map Delete rs"
    using trace_Unref [of h "emit (CacheRelease h) s"]
    by (auto simp: Cache_Release_def trace_emit)
  then show ?thesis
    by (simp add: releases_append releases_Delete releases_Cons releases_Nil)
qed

text \<open>FindTable releases nothing.\<close>

lemma releases_FindTable:
  "releases h' (trace (snd (FindTable tc ext fn fs s))) = releases h' (trace s)"
proof (cases "fst (Cache_Lookup (EncodeFixed64 fn) s)")
  case (Some h)
  then obtain e where c: "cache_index s (EncodeFixed64 fn) = Some h" "entry_of s h = Some e"
    using Cache_Lookup_Some by blast
  show ?thesis
    by (simp add: FindTable_hit [OF c] releases_append releases_Cons releases_Nil)
next
  case None
  let ?dirs = "search_dirs (tc_options tc) (tc_dbname tc) fn"
  let ?s = "emit (CacheLookup (EncodeFixed64 fn)) s"
  let ?st = "Failed (NotFound ''table file not found'')"
  have s0: "releases h' (trace ?s) = releases h' (trace s)"
    by (simp add: trace_emit releases_append releases_Cons releases_Nil)
  consider (fail) "\<forall>d \<in> set ?dirs. dir_status tc ext fn fs d \<noteq> OK"
    | (succ) pre d post tf where "?dirs = pre @ d # post"
        "\<forall>x \<in> set pre. dir_status tc ext fn fs x \<noteq> OK" "fst (probe_dir tc ext fn fs d) = Inr tf"
    using probe_dirs_cases [of ?dirs tc ext fn fs] by blast
  then show ?thesis
  proof cases
    case fail
    show ?thesis
      by (simp add: FindTable_miss [OF None] probe_dirs_all_fail [OF fail] releases_append
          releases_probe_events s0)
  next
    case succ
    let ?s' = "?s\<lparr>trace := trace ?s @ probe_events tc ext fn fs (pre @ [d])\<rparr>"
    obtain h s1 where ins:
      "Cache_Insert (tc_cache tc) (EncodeFixed64 fn) tf 1 DeleteEntry ?s' = (h, s1)"
      by (cases "Cache_Insert (tc_cache tc) (EncodeFixed64 fn) tf 1 DeleteEntry ?s'")
    have ft: "FindTable tc ext fn fs s = ((OK, Some h), s1)"
      by (simp only: FindTable_miss [OF None] succ(1) probe_dirs_success [OF succ(2,3)] ins
          fst_conv snd_conv)
    from Cache_Insert_result [OF ins] obtain rs where
      "trace s1 = trace ?s' @ CacheInsert (EncodeFixed64 fn) (tf_file tf) (tf_table tf) 1 # map Delete rs"
      by blast
    then have "releases h' (trace s1) = releases h' (trace ?s)"
      by (simp add: releases_append releases_Cons releases_Delete releases_probe_events)
    with s0 ft show ?thesis by simp
  qed
qed

lemma Iterator_Next_cleanups: "it_cleanups ((Iterator_Next ^^ k) it) = it_cleanups it"
  by (induction k) (simp_all add: Iterator_Next_def)

lemma Iterator_Next_RegisterCleanup:
  "(Iterator_Next ^^ k) (RegisterCleanup f it) = RegisterCleanup f ((Iterator_Next ^^ k) it)"
  by (induction k) (simp_all add: Iterator_Next_def RegisterCleanup_def)

lemma Iterator_delete_RegisterCleanup:
  "Iterator_delete (RegisterCleanup f it) s = f (Iterator_delete it s)"
  by (simp add: Iterator_delete_def RegisterCleanup_def)

section \<open>The examples\<close>

lemma initial_miss: "fst (Cache_Lookup key initial_state) = None"
  by (simp add: Cache_Lookup_def initial_state_def Let_def emit_def)

lemma demo_names:
  "TableFileName (number_string demo_ext) d n = d @ ''/000005.ldb''"
  "SSTTableFileName (number_string demo_ext) d n = d @ ''/000005.sst''"
  by (simp_all add: TableFileName_def SSTTableFileName_def demo_ext_def)

lemma demo_tc_sel:
  "tc_env (demo_tc present dbname options) p = (if p \<in> set present then Inr p else Inl (NotFound p))"
  "tc_dbname (demo_tc present dbname options) = dbname"
  "tc_options (demo_tc present dbname options) = options"
  "tc_cache (demo_tc present dbname options) s = [0..<length (cache_entries s)]"
  by (simp_all add: demo_tc_def)

lemma demo_Table_Open:
  "Table_Open demo_ext f n = (if n = 100 then Inr (''table:'' @ f) else Inl (Corruption f))"
  by (simp add: demo_ext_def)

lemma demo_path: "search_dirs demo_options ''db'' 5 = [''b'', ''a'', ''db'']"
proof -
  have "(5::nat) mod Suc (Suc 0) = 1" by (simp add: numeral_2_eq_2 [symmetric])
  then show ?thesis
    by (simp add: demo_options_def search_dirs_def push_unique_dir_def)
qed

lemma shared_path: "search_dirs shared_options ''p'' 5 = [''p'', ''a'']"
proof -
  have "(5::nat) mod Suc (Suc 0) = 1" by (simp add: numeral_2_eq_2 [symmetric])
  then show ?thesis
    by (simp add: shared_options_def search_dirs_def push_unique_dir_def)
qed

lemma demo_probe_missing:
  "probe_dir (demo_tc [] dbname options) demo_ext n fs d =
     (Inl (NotFound (d @ ''/000005.ldb'')),
      [NewRandomAccessFile (d @ ''/000005.ldb''), NewRandomAccessFile (d @ ''/000005.sst'')])"
  by (simp add: probe_dir_def Let_def demo_names demo_tc_sel)

lemma demo_first_call:
  "\<exists>s1. FindTable (demo_tc [''a/000005.sst''] ''db'' demo_options) demo_ext 5 100 initial_state =
          ((OK, Some 0), s1)"
proof -
  let ?tc = "demo_tc [''a/000005.sst''] ''db'' demo_options"
  have pb: "probe_dir ?tc demo_ext 5 100 ''b'' =
     (Inl (NotFound ''b/000005.ldb''),
      [NewRandomAccessFile ''b/000005.ldb'', NewRandomAccessFile ''b/000005.sst''])"
    by (simp add: probe_dir_def Let_def demo_names demo_tc_sel)
  have pa: "probe_dir ?tc demo_ext 5 100 ''a'' =
     (Inr \<lparr>tf_file = ''a/000005.sst'', tf_table = ''table:a/000005.sst''\<rparr>,
      [NewRandomAccessFile ''a/000005.ldb'', NewRandomAccessFile ''a/000005.sst'',
       TableOpen ''a/000005.sst'' 100])"
    by (simp add: probe_dir_def Let_def demo_names demo_tc_sel demo_Table_Open)
  have "FindTable ?tc demo_ext 5 100 initial_state =
      probe_dirs ?tc demo_ext 5 100 (EncodeFixed64 5) [''b'', ''a'', ''db'']
        (Failed (NotFound ''table file not found''))
        (emit (CacheLookup (EncodeFixed64 5)) initial_state)"
    by (simp add: FindTable_miss [OF initial_miss] demo_tc_sel demo_path)
  then have "fst (FindTable ?tc demo_ext 5 100 initial_state) = (OK, Some 0)"
    by (simp add: pa pb case_prod_beta fst_Cache_Insert emit_def initial_state_def)
  then show ?thesis
    by (cases "FindTable ?tc demo_ext 5 100 initial_state") simp
qed

lemma demo_dir_opened:
  "dir_opened (demo_tc present dbname options) demo_ext n d =
     (if d @ ''/000005.ldb'' \<in> set present then Some (d @ ''/000005.ldb'')
      else if d @ ''/000005.sst'' \<in> set present then Some (d @ ''/000005.sst'')
      else None)"
  by (simp add: dir_opened_def demo_names demo_tc_sel)

section \<open>The directory search path (C1)\<close>

text \<open>
  C1 (amended). The search path is a function of the identifier and the configured
  directories alone. With multi-disk mode enabled and N > 0 alternates it is the
  alternates in circular order from index (identifier mod N), followed by the primary
  directory, without the empty names and with every name kept at its first occurrence
  only; otherwise it is the primary directory alone, or empty when the primary
  directory's name is empty. It has no repeated and no empty name, and it is the path of
  the specification whenever no configured name is empty.
\<close>

theorem search_dirs_path:
  "search_dirs options dbname file_number =
     (if enable_multi_disk options \<and> data_dirs options \<noteq> [] then
        drop_repeats (filter (\<lambda>d. d \<noteq> [])
          (rotate (unat file_number mod length (data_dirs options)) (data_dirs options)
             @ [dbname]))
      else if dbname = [] then [] else [dbname]) \<and>
   distinct (search_dirs options dbname file_number) \<and>
   [] \<notin> set (search_dirs options dbname file_number) \<and>
   (dbname \<noteq> [] \<and> [] \<notin> set (data_dirs options) \<longrightarrow>
      search_dirs options dbname file_number = spec_search_path options dbname file_number)"
proof (cases "enable_multi_disk options \<and> data_dirs options \<noteq> []")
  case True
  then have m: "search_dirs options dbname file_number =
      drop_repeats (filter (\<lambda>d. d \<noteq> [])
        (rotate (unat file_number mod length (data_dirs options)) (data_dirs options) @ [dbname]))"
    by (simp add: search_dirs_multi)
  have "filter (\<lambda>d. d \<noteq> []) ds = ds" if "[] \<notin> set ds" for ds :: "string list"
    using that by (induction ds) auto
  then have "dbname \<noteq> [] \<and> [] \<notin> set (data_dirs options) \<longrightarrow>
      search_dirs options dbname file_number = spec_search_path options dbname file_number"
    using True by (simp add: m spec_search_path_def)
  moreover have "distinct (search_dirs options dbname file_number)"
    by (simp only: m distinct_drop_repeats)
  moreover have "[] \<notin> set (search_dirs options dbname file_number)"
    by (simp only: m set_drop_repeats) simp
  ultimately show ?thesis using True m by simp
next
  case False
  then have "search_dirs options dbname file_number = (if dbname = [] then [] else [dbname])"
    by (rule search_dirs_single)
  with False show ?thesis by (auto simp: spec_search_path_def)
qed

text \<open>The path for identifier 5 over the alternates a and b: b, a, then the primary.\<close>

theorem search_dirs_path_witness:
  "search_dirs demo_options ''db'' 5 = [''b'', ''a'', ''db''] \<and>
   search_dirs demo_options ''db'' 5 = spec_search_path demo_options ''db'' 5"
proof -
  have a: "search_dirs demo_options ''db'' 5 = [''b'', ''a'', ''db'']"
    by (rule demo_path)
  have "''db'' \<noteq> [] \<and> [] \<notin> set (data_dirs demo_options)"
    by (simp add: demo_options_def)
  with search_dirs_path [of demo_options "''db''" 5]
  have "search_dirs demo_options ''db'' 5 = spec_search_path demo_options ''db'' 5"
    by blast
  with a show ?thesis by simp
qed

text \<open>
  C1 as stated fails where a configured name is empty: the empty alternate is not
  probed, and an empty primary directory is not appended.
\<close>

theorem search_dirs_skips_empty_names:
  "search_dirs \<lparr>enable_multi_disk = True, data_dirs = ['''', ''d1'']\<rparr> ''db'' 0 = [''d1'', ''db''] \<and>
   spec_search_path \<lparr>enable_multi_disk = True, data_dirs = ['''', ''d1'']\<rparr> ''db'' 0 = ['''', ''d1'', ''db''] \<and>
   search_dirs \<lparr>enable_multi_disk = True, data_dirs = ['''', ''d1'']\<rparr> ''db'' 0 \<noteq>
     spec_search_path \<lparr>enable_multi_disk = True, data_dirs = ['''', ''d1'']\<rparr> ''db'' 0 \<and>
   search_dirs \<lparr>enable_multi_disk = False, data_dirs = []\<rparr> '''' 0 = [] \<and>
   spec_search_path \<lparr>enable_multi_disk = False, data_dirs = []\<rparr> '''' 0 = [''''] \<and>
   search_dirs \<lparr>enable_multi_disk = False, data_dirs = []\<rparr> '''' 0 \<noteq>
     spec_search_path \<lparr>enable_multi_disk = False, data_dirs = []\<rparr> '''' 0"
  by (simp add: search_dirs_def spec_search_path_def push_unique_dir_def)

section \<open>The error when every directory fails (C2)\<close>

text \<open>
  C2 (amended). When the identifier is not in the cache and every directory of the search
  path fails, FindTable returns no handle and the status recorded for the final
  directory of the search path (the initial NotFound "table file not found" when the
  path is empty). The primary directory is that final directory, and the error returned
  is the one of its attempt, whenever its name is not empty and, in multi-disk mode, it
  is not one of the configured alternates.
\<close>

theorem FindTable_all_fail:
  assumes "fst (Cache_Lookup (EncodeFixed64 fn) s) = None"
    and "\<forall>d \<in> set (search_dirs (tc_options tc) (tc_dbname tc) fn). dir_status tc ext fn fs d \<noteq> OK"
  shows "fst (FindTable tc ext fn fs s) =
           (if search_dirs (tc_options tc) (tc_dbname tc) fn = []
            then Failed (NotFound ''table file not found'')
            else dir_status tc ext fn fs (last (search_dirs (tc_options tc) (tc_dbname tc) fn)),
            None) \<and>
         (tc_dbname tc \<noteq> [] \<and>
          (enable_multi_disk (tc_options tc) \<longrightarrow> tc_dbname tc \<notin> set (data_dirs (tc_options tc))) \<longrightarrow>
            fst (FindTable tc ext fn fs s) = (dir_status tc ext fn fs (tc_dbname tc), None))"
proof -
  let ?dirs = "search_dirs (tc_options tc) (tc_dbname tc) fn"
  have r: "fst (FindTable tc ext fn fs s) =
           (if ?dirs = [] then Failed (NotFound ''table file not found'')
            else dir_status tc ext fn fs (last ?dirs), None)"
    by (simp only: FindTable_miss [OF assms(1)] probe_dirs_all_fail [OF assms(2)] fst_conv)
  moreover have "fst (FindTable tc ext fn fs s) = (dir_status tc ext fn fs (tc_dbname tc), None)"
    if "tc_dbname tc \<noteq> []"
      "enable_multi_disk (tc_options tc) \<longrightarrow> tc_dbname tc \<notin> set (data_dirs (tc_options tc))"
    using search_dirs_primary_last [OF that, of fn] r by simp
  ultimately show ?thesis by blast
qed

text \<open>No file anywhere: the error is the one of the primary directory db, probed last.\<close>

theorem FindTable_all_fail_witness:
  "fst (FindTable (demo_tc [] ''db'' demo_options) demo_ext 5 100 initial_state) =
     (Failed (NotFound ''db/000005.ldb''), None)"
proof -
  have "\<forall>d \<in> set (search_dirs (tc_options (demo_tc [] ''db'' demo_options))
                    (tc_dbname (demo_tc [] ''db'' demo_options)) 5).
          dir_status (demo_tc [] ''db'' demo_options) demo_ext 5 100 d \<noteq> OK"
    by (simp add: dir_status_def demo_probe_missing)
  from FindTable_all_fail [OF initial_miss this]
  show ?thesis
    by (simp add: demo_tc_sel demo_path dir_status_def demo_probe_missing)
qed

text \<open>
  C2 as stated fails where the primary directory is also an alternate: it is probed at
  its place among the alternates, here first, and the error returned is the one of the
  alternate a, probed last.
\<close>

theorem primary_not_probed_last:
  "search_dirs shared_options ''p'' 5 = [''p'', ''a''] \<and>
   dir_status (demo_tc [] ''p'' shared_options) demo_ext 5 100 ''p'' = Failed (NotFound ''p/000005.ldb'') \<and>
   dir_status (demo_tc [] ''p'' shared_options) demo_ext 5 100 ''a'' = Failed (NotFound ''a/000005.ldb'') \<and>
   fst (FindTable (demo_tc [] ''p'' shared_options) demo_ext 5 100 initial_state) =
     (Failed (NotFound ''a/000005.ldb''), None) \<and>
   fst (fst (FindTable (demo_tc [] ''p'' shared_options) demo_ext 5 100 initial_state)) \<noteq>
     dir_status (demo_tc [] ''p'' shared_options) demo_ext 5 100
       (tc_dbname (demo_tc [] ''p'' shared_options))"
proof -
  have "fst (FindTable (demo_tc [] ''p'' shared_options) demo_ext 5 100 initial_state) =
     (Failed (NotFound ''a/000005.ldb''), None)"
    by (simp add: FindTable_miss [OF initial_miss] demo_tc_sel shared_path demo_probe_missing)
  then show ?thesis
    by (simp add: shared_path dir_status_def demo_probe_missing demo_tc_sel)
qed

section \<open>The cache hit (C3)\<close>

text \<open>
  C3. When the entry of record for the identifier is in the cache, FindTable returns OK
  with the handle of this very entry; the only call it makes is the lookup, which adds
  one reference, and the result does not depend on the environment, the directories, the
  parser or the expected size: nothing is opened, no path is built, nothing is parsed.
  (Whenever the lookup gives a handle, FindTable's result is OK with this handle, and
  the state is the one the lookup left.) So after a FindTable that returned OK with a
  handle, the next FindTable for the identifier, whatever the file system has become,
  returns OK with the same handle to the same value and makes no call but the lookup.
\<close>

theorem FindTable_cache_hit:
  "(cache_index s (EncodeFixed64 fn) = Some h \<and> entry_of s h = Some e \<longrightarrow>
      FindTable tc ext fn fs s =
        ((OK, Some h),
         s\<lparr>cache_entries := (cache_entries s)[h := Some (e\<lparr>e_refs := Suc (e_refs e)\<rparr>)],
           trace := trace s @ [CacheLookup (EncodeFixed64 fn)]\<rparr>) \<and>
      Cache_Value (snd (FindTable tc ext fn fs s)) h = Some (e_value e) \<and>
      FindTable tc' ext' fn fs' s = FindTable tc ext fn fs s) \<and>
   (fst (Cache_Lookup (EncodeFixed64 fn) s) = Some h \<longrightarrow>
      FindTable tc ext fn fs s = ((OK, Some h), snd (Cache_Lookup (EncodeFixed64 fn) s))) \<and>
   (FindTable tc ext fn fs s = ((OK, Some h), s1) \<longrightarrow>
      (\<exists>s2. FindTable tc' ext' fn fs' s1 = ((OK, Some h), s2) \<and>
            trace s2 = trace s1 @ [CacheLookup (EncodeFixed64 fn)] \<and>
            Cache_Value s2 h = Cache_Value s1 h \<and> Cache_Value s1 h \<noteq> None))"
proof -
  have hit: "FindTable tc ext fn fs s =
        ((OK, Some h),
         s\<lparr>cache_entries := (cache_entries s)[h := Some (e\<lparr>e_refs := Suc (e_refs e)\<rparr>)],
           trace := trace s @ [CacheLookup (EncodeFixed64 fn)]\<rparr>) \<and>
      Cache_Value (snd (FindTable tc ext fn fs s)) h = Some (e_value e) \<and>
      FindTable tc' ext' fn fs' s = FindTable tc ext fn fs s"
    if c: "cache_index s (EncodeFixed64 fn) = Some h" "entry_of s h = Some e"
      for s :: "('a, 'b) state" and h e
  proof -
    have "h < length (cache_entries s)"
      using c(2) by (simp add: entry_of_def split: if_splits)
    then show ?thesis
      by (simp add: FindTable_hit [OF c] Cache_Value_def entry_of_def)
  qed
  have lookup: "FindTable tc ext fn fs s = ((OK, Some h), snd (Cache_Lookup (EncodeFixed64 fn) s))"
    if "fst (Cache_Lookup (EncodeFixed64 fn) s) = Some h"
    using that by (simp add: FindTable_def Let_def case_prod_beta)
  have again: "\<exists>s2. FindTable tc' ext' fn fs' s1 = ((OK, Some h), s2) \<and>
            trace s2 = trace s1 @ [CacheLookup (EncodeFixed64 fn)] \<and>
            Cache_Value s2 h = Cache_Value s1 h \<and> Cache_Value s1 h \<noteq> None"
    if "FindTable tc ext fn fs s = ((OK, Some h), s1)"
  proof -
    from FindTable_OK [OF that] obtain e1 where
      c: "cache_index s1 (EncodeFixed64 fn) = Some h" "entry_of s1 h = Some e1"
      by auto
    have "h < length (cache_entries s1)"
      using c(2) by (simp add: entry_of_def split: if_splits)
    then show ?thesis
      using c(2) by (simp add: FindTable_hit [OF c] Cache_Value_def entry_of_def)
  qed
  from hit lookup again show ?thesis by blast
qed

text \<open>
  The table is resolved from a/000005.sst; then, with every file gone, it is resolved
  again from the cache. And in a state with the table in the cache, it is resolved by
  the lookup alone, without any file.
\<close>

theorem FindTable_cache_hit_witness:
  "(\<exists>s1 s2. FindTable (demo_tc [''a/000005.sst''] ''db'' demo_options) demo_ext 5 100 initial_state =
             ((OK, Some 0), s1) \<and>
           FindTable (demo_tc [] ''db'' demo_options) demo_ext 5 100 s1 = ((OK, Some 0), s2) \<and>
           trace s2 = trace s1 @ [CacheLookup (EncodeFixed64 5)]) \<and>
   fst (FindTable (demo_tc [] ''db'' demo_options) demo_ext 5 100 (cached_state 2)) = (OK, Some 0) \<and>
   trace (snd (FindTable (demo_tc [] ''db'' demo_options) demo_ext 5 100 (cached_state 2))) =
     [CacheLookup (EncodeFixed64 5)] \<and>
   map_option e_refs
     (entry_of (snd (FindTable (demo_tc [] ''db'' demo_options) demo_ext 5 100 (cached_state 2))) 0) =
     Some 3"
proof -
  let ?tc = "demo_tc [] ''db'' demo_options"
  let ?e = "\<lparr>e_key = EncodeFixed64 5,
             e_value = \<lparr>tf_file = ''a/000005.sst'', tf_table = ''table:a/000005.sst''\<rparr>,
             e_charge = 1, e_deleter = DeleteEntry, e_refs = 2\<rparr>"
  obtain s1 where f: "FindTable (demo_tc [''a/000005.sst''] ''db'' demo_options) demo_ext 5 100
      initial_state = ((OK, Some 0), s1)"
    using demo_first_call by blast
  with FindTable_cache_hit [of initial_state 5 0 _ "demo_tc [''a/000005.sst''] ''db'' demo_options"
      demo_ext 100 ?tc demo_ext 100 s1]
  have a: "\<exists>s1 s2. FindTable (demo_tc [''a/000005.sst''] ''db'' demo_options) demo_ext 5 100 initial_state =
             ((OK, Some 0), s1) \<and>
           FindTable ?tc demo_ext 5 100 s1 = ((OK, Some 0), s2) \<and>
           trace s2 = trace s1 @ [CacheLookup (EncodeFixed64 5)]"
    by blast
  have c: "cache_index (cached_state 2) (EncodeFixed64 5) = Some 0 \<and>
           entry_of (cached_state 2) 0 = Some ?e"
    by (simp add: cached_state_def entry_of_def)
  with FindTable_cache_hit [of "cached_state 2" 5 0 ?e ?tc demo_ext 100]
  have "FindTable ?tc demo_ext 5 100 (cached_state 2) =
        ((OK, Some 0),
         (cached_state 2)\<lparr>cache_entries :=
             (cache_entries (cached_state 2))[0 := Some (?e\<lparr>e_refs := Suc (e_refs ?e)\<rparr>)],
           trace := trace (cached_state 2) @ [CacheLookup (EncodeFixed64 5)]\<rparr>)"
    by blast
  then have "fst (FindTable ?tc demo_ext 5 100 (cached_state 2)) = (OK, Some 0) \<and>
     trace (snd (FindTable ?tc demo_ext 5 100 (cached_state 2))) = [CacheLookup (EncodeFixed64 5)] \<and>
     map_option e_refs (entry_of (snd (FindTable ?tc demo_ext 5 100 (cached_state 2))) 0) = Some 3"
    by (simp add: cached_state_def entry_of_def)
  with a show ?thesis by blast
qed

section \<open>The first success ends the search (C4)\<close>

text \<open>
  C4. On a miss, let d be the first directory of the search path in which both the open
  (of the current name or, if that fails, of the legacy name) and the parse succeed, with
  file f and table t. FindTable returns OK with the handle of a new entry, made by the
  insertion of the pair of f and t under the 8-byte encoding of the identifier, with
  charge 1 and the destructor DeleteEntry. The calls it makes are the lookup, the calls
  of the directories up to and including d, and this insertion; after it, the trace holds
  only what the cache's evictions delete, of entries without outstanding handle. No file
  name of a later directory is opened.
\<close>

theorem FindTable_stops_at_first_success:
  assumes "fst (Cache_Lookup (EncodeFixed64 fn) s) = None"
    and "search_dirs (tc_options tc) (tc_dbname tc) fn = pre @ d # post"
    and "\<forall>x \<in> set pre. \<forall>f' t'. \<not> dir_succeeds tc ext fn fs x f' t'"
    and "dir_succeeds tc ext fn fs d f t"
  shows "\<exists>s' rs.
           FindTable tc ext fn fs s = ((OK, Some (length (cache_entries s))), s') \<and>
           s' = snd (Cache_Insert (tc_cache tc) (EncodeFixed64 fn) \<lparr>tf_file = f, tf_table = t\<rparr> 1
                  DeleteEntry
                  (s\<lparr>trace := trace s @ CacheLookup (EncodeFixed64 fn) #
                       concat (map (dir_calls tc ext fn fs) (pre @ [d]))\<rparr>)) \<and>
           entry_of s (length (cache_entries s)) = None \<and>
           entry_of s' (length (cache_entries s)) =
             Some \<lparr>e_key = EncodeFixed64 fn, e_value = \<lparr>tf_file = f, tf_table = t\<rparr>,
                   e_charge = 1, e_deleter = DeleteEntry, e_refs = 2\<rparr> \<and>
           cache_index s' (EncodeFixed64 fn) = Some (length (cache_entries s)) \<and>
           length (EncodeFixed64 fn) = 8 \<and>
           trace s' = trace s @ CacheLookup (EncodeFixed64 fn) #
             concat (map (dir_calls tc ext fn fs) (pre @ [d])) @
             CacheInsert (EncodeFixed64 fn) f t 1 # map Delete rs \<and>
           (\<forall>r \<in> set rs. \<exists>h e. entry_of s h = Some e \<and> e_refs e = 1 \<and>
               cache_index s (e_key e) = Some h \<and> r \<in> set (e_deleter e (e_key e) (e_value e))) \<and>
           (\<forall>x \<in> set post.
               NewRandomAccessFile (TableFileName (number_string ext) x fn)
                 \<notin> set (concat (map (dir_calls tc ext fn fs) (pre @ [d]))) \<and>
               NewRandomAccessFile (SSTTableFileName (number_string ext) x fn)
                 \<notin> set (concat (map (dir_calls tc ext fn fs) (pre @ [d])))) \<and>
           (tc_env tc (TableFileName (number_string ext) d fn) = Inr f \<or>
            isl (tc_env tc (TableFileName (number_string ext) d fn)) \<and>
            tc_env tc (SSTTableFileName (number_string ext) d fn) = Inr f) \<and>
           Table_Open ext f fs = Inr t"
proof -
  from FindTable_first_success [OF assms] obtain s' rs where
    a: "FindTable tc ext fn fs s = ((OK, Some (length (cache_entries s))), s')"
    and b: "s' = snd (Cache_Insert (tc_cache tc) (EncodeFixed64 fn) \<lparr>tf_file = f, tf_table = t\<rparr> 1
                  DeleteEntry
                  (s\<lparr>trace := trace s @ CacheLookup (EncodeFixed64 fn) #
                       concat (map (dir_calls tc ext fn fs) (pre @ [d]))\<rparr>))"
    and c: "entry_of s' (length (cache_entries s)) =
             Some \<lparr>e_key = EncodeFixed64 fn, e_value = \<lparr>tf_file = f, tf_table = t\<rparr>,
                   e_charge = 1, e_deleter = DeleteEntry, e_refs = 2\<rparr>"
    and d: "cache_index s' (EncodeFixed64 fn) = Some (length (cache_entries s))"
    and e: "trace s' = trace s @ CacheLookup (EncodeFixed64 fn) #
             concat (map (dir_calls tc ext fn fs) (pre @ [d])) @
             CacheInsert (EncodeFixed64 fn) f t 1 # map Delete rs"
    and g: "\<forall>r \<in> set rs. \<exists>h e. entry_of s h = Some e \<and> e_refs e = 1 \<and>
               cache_index s (e_key e) = Some h \<and> r \<in> set (e_deleter e (e_key e) (e_value e))"
    by blast
  have n: "entry_of s (length (cache_entries s)) = None"
    by (simp add: entry_of_def)
  have "distinct (pre @ d # post)"
    using distinct_search_dirs [of "tc_options tc" "tc_dbname tc" fn] assms(2) by simp
  then have "\<forall>x \<in> set post. x \<notin> set (pre @ [d])" by auto
  then have p: "\<forall>x \<in> set post.
               NewRandomAccessFile (TableFileName (number_string ext) x fn)
                 \<notin> set (concat (map (dir_calls tc ext fn fs) (pre @ [d]))) \<and>
               NewRandomAccessFile (SSTTableFileName (number_string ext) x fn)
                 \<notin> set (concat (map (dir_calls tc ext fn fs) (pre @ [d])))"
    using other_dir_not_opened [of _ "pre @ [d]" ext fn tc fs] by blast
  have env: "(tc_env tc (TableFileName (number_string ext) d fn) = Inr f \<or>
            isl (tc_env tc (TableFileName (number_string ext) d fn)) \<and>
            tc_env tc (SSTTableFileName (number_string ext) d fn) = Inr f) \<and>
           Table_Open ext f fs = Inr t"
    using assms(4) by (simp only: dir_succeeds_env)
  show ?thesis
    using a b c d e g n p env length_EncodeFixed64 [of fn]
    by (intro exI [of _ s'] exI [of _ rs]) simp
qed

text \<open>With the table in a only, b and a are probed and db is not.\<close>

theorem FindTable_stops_at_first_success_witness:
  "(\<exists>s'. FindTable (demo_tc [''a/000005.sst''] ''db'' demo_options) demo_ext 5 100 initial_state =
       ((OK, Some 0), s') \<and>
     cache_index s' (EncodeFixed64 5) = Some 0 \<and>
     Cache_Value s' 0 = Some \<lparr>tf_file = ''a/000005.sst'', tf_table = ''table:a/000005.sst''\<rparr> \<and>
     trace s' =
       [CacheLookup (EncodeFixed64 5),
        NewRandomAccessFile ''b/000005.ldb'', NewRandomAccessFile ''b/000005.sst'',
        NewRandomAccessFile ''a/000005.ldb'', NewRandomAccessFile ''a/000005.sst'',
        TableOpen ''a/000005.sst'' 100,
        CacheInsert (EncodeFixed64 5) ''a/000005.sst'' ''table:a/000005.sst'' 1])"
proof -
  let ?tc = "demo_tc [''a/000005.sst''] ''db'' demo_options"
  have path: "search_dirs (tc_options ?tc) (tc_dbname ?tc) 5 = [''b''] @ ''a'' # [''db'']"
    by (simp add: demo_tc_sel demo_path)
  have fails: "\<forall>x \<in> set [''b'']. \<forall>f' t'. \<not> dir_succeeds ?tc demo_ext 5 100 x f' t'"
    by (simp add: dir_succeeds_def demo_dir_opened)
  have succ: "dir_succeeds ?tc demo_ext 5 100 ''a'' ''a/000005.sst'' ''table:a/000005.sst''"
    by (simp add: dir_succeeds_def demo_dir_opened demo_Table_Open)
  have cb: "dir_calls ?tc demo_ext 5 100 ''b'' =
      [NewRandomAccessFile ''b/000005.ldb'', NewRandomAccessFile ''b/000005.sst'']"
    by (simp add: dir_calls_def demo_dir_opened demo_names demo_tc_sel)
  have ca: "dir_calls ?tc demo_ext 5 100 ''a'' =
      [NewRandomAccessFile ''a/000005.ldb'', NewRandomAccessFile ''a/000005.sst'',
       TableOpen ''a/000005.sst'' 100]"
    by (simp add: dir_calls_def demo_dir_opened demo_names demo_tc_sel demo_Table_Open)
  from FindTable_stops_at_first_success [OF initial_miss path fails succ]
  obtain s' rs where
    a: "FindTable ?tc demo_ext 5 100 initial_state =
          ((OK, Some (length (cache_entries (initial_state :: (string, string) state)))), s')"
    and c: "entry_of s' (length (cache_entries (initial_state :: (string, string) state))) =
             Some \<lparr>e_key = EncodeFixed64 5,
                   e_value = \<lparr>tf_file = ''a/000005.sst'', tf_table = ''table:a/000005.sst''\<rparr>,
                   e_charge = 1, e_deleter = DeleteEntry, e_refs = 2\<rparr>"
    and d: "cache_index s' (EncodeFixed64 5) =
             Some (length (cache_entries (initial_state :: (string, string) state)))"
    and e: "trace s' = trace (initial_state :: (string, string) state) @ CacheLookup (EncodeFixed64 5) #
             concat (map (dir_calls ?tc demo_ext 5 100) ([''b''] @ [''a''])) @
             CacheInsert (EncodeFixed64 5) ''a/000005.sst'' ''table:a/000005.sst'' 1 # map Delete rs"
    and g: "\<forall>r \<in> set rs. \<exists>h e. entry_of (initial_state :: (string, string) state) h = Some e \<and>
               e_refs e = 1 \<and> cache_index (initial_state :: (string, string) state) (e_key e) = Some h \<and>
               r \<in> set (e_deleter e (e_key e) (e_value e))"
    by blast
  have "rs = []"
  proof (cases rs)
    case Nil
    then show ?thesis .
  next
    case (Cons r rs')
    with g have "\<exists>h e. entry_of (initial_state :: (string, string) state) h = Some e" by auto
    then show ?thesis by (simp add: entry_of_def initial_state_def)
  qed
  with a c d e show ?thesis
    by (simp add: initial_state_def ca cb Cache_Value_def)
qed

section \<open>Current name, then legacy name (C5)\<close>

text \<open>
  C5. The calls that FindTable makes on a miss are the lookup and then, directory by
  directory in the order of the search path, up to the first directory that succeeds:
  first the open of the current name, number.ldb; then, only if that open failed, the
  open of the legacy name, number.sst, in the same directory; then the parse, with the
  expected size, of the file that an open gave. So, when the first directory that
  succeeds holds the file under the legacy name only, FindTable makes both opens there,
  parses the legacy file with the expected size and returns OK with a handle whose
  cached value is this file and its table; and whenever some directory of the search
  path holds such a file, FindTable returns OK with a handle whose cached value is the
  file and table of the first directory that succeeds.
\<close>

theorem current_name_before_legacy_name:
  "TableFileName (number_string ext) dir fn = dir @ ''/'' @ number_string ext fn @ ''.ldb'' \<and>
   SSTTableFileName (number_string ext) dir fn = dir @ ''/'' @ number_string ext fn @ ''.sst'' \<and>
   (\<forall>f. tc_env tc (TableFileName (number_string ext) dir fn) = Inr f \<longrightarrow>
      dir_calls tc ext fn fs dir =
        NewRandomAccessFile (TableFileName (number_string ext) dir fn) # TableOpen f fs #
        (if isl (Table_Open ext f fs) then [Delete (FileObject f)] else []) \<and>
      NewRandomAccessFile (SSTTableFileName (number_string ext) dir fn)
        \<notin> set (dir_calls tc ext fn fs dir)) \<and>
   (\<forall>e f. tc_env tc (TableFileName (number_string ext) dir fn) = Inl e \<and>
        tc_env tc (SSTTableFileName (number_string ext) dir fn) = Inr f \<longrightarrow>
      dir_calls tc ext fn fs dir =
        NewRandomAccessFile (TableFileName (number_string ext) dir fn) #
        NewRandomAccessFile (SSTTableFileName (number_string ext) dir fn) # TableOpen f fs #
        (if isl (Table_Open ext f fs) then [Delete (FileObject f)] else [])) \<and>
   (\<forall>e e'. tc_env tc (TableFileName (number_string ext) dir fn) = Inl e \<and>
        tc_env tc (SSTTableFileName (number_string ext) dir fn) = Inl e' \<longrightarrow>
      dir_calls tc ext fn fs dir =
        [NewRandomAccessFile (TableFileName (number_string ext) dir fn),
         NewRandomAccessFile (SSTTableFileName (number_string ext) dir fn)]) \<and>
   (fst (Cache_Lookup (EncodeFixed64 fn) s) = None \<longrightarrow>
      ((\<forall>x \<in> set (search_dirs (tc_options tc) (tc_dbname tc) fn).
          \<forall>f t. \<not> dir_succeeds tc ext fn fs x f t) \<longrightarrow>
         snd (fst (FindTable tc ext fn fs s)) = None \<and>
         trace (snd (FindTable tc ext fn fs s)) =
           trace s @ CacheLookup (EncodeFixed64 fn) #
             concat (map (dir_calls tc ext fn fs)
               (search_dirs (tc_options tc) (tc_dbname tc) fn))) \<and>
      (\<forall>pre d post f t.
         search_dirs (tc_options tc) (tc_dbname tc) fn = pre @ d # post \<and>
         (\<forall>x \<in> set pre. \<forall>f' t'. \<not> dir_succeeds tc ext fn fs x f' t') \<and>
         dir_succeeds tc ext fn fs d f t \<longrightarrow>
           (\<exists>s' rs. FindTable tc ext fn fs s = ((OK, Some (length (cache_entries s))), s') \<and>
              Cache_Value s' (length (cache_entries s)) = Some \<lparr>tf_file = f, tf_table = t\<rparr> \<and>
              trace s' = trace s @ CacheLookup (EncodeFixed64 fn) #
                concat (map (dir_calls tc ext fn fs) pre) @ dir_calls tc ext fn fs d @
                CacheInsert (EncodeFixed64 fn) f t 1 # map Delete rs)) \<and>
      (\<forall>e f t.
         dir \<in> set (search_dirs (tc_options tc) (tc_dbname tc) fn) \<and>
         tc_env tc (TableFileName (number_string ext) dir fn) = Inl e \<and>
         tc_env tc (SSTTableFileName (number_string ext) dir fn) = Inr f \<and>
         Table_Open ext f fs = Inr t \<longrightarrow>
           dir_succeeds tc ext fn fs dir f t \<and>
           dir_calls tc ext fn fs dir =
             [NewRandomAccessFile (TableFileName (number_string ext) dir fn),
              NewRandomAccessFile (SSTTableFileName (number_string ext) dir fn),
              TableOpen f fs] \<and>
           (\<exists>pre d' post f' t' s' rs.
              search_dirs (tc_options tc) (tc_dbname tc) fn = pre @ d' # post \<and>
              (\<forall>x \<in> set pre. \<forall>f t. \<not> dir_succeeds tc ext fn fs x f t) \<and>
              dir_succeeds tc ext fn fs d' f' t' \<and> dir \<in> set (d' # post) \<and>
              (d' = dir \<longrightarrow> f' = f \<and> t' = t) \<and>
              FindTable tc ext fn fs s = ((OK, Some (length (cache_entries s))), s') \<and>
              Cache_Value s' (length (cache_entries s)) = Some \<lparr>tf_file = f', tf_table = t'\<rparr> \<and>
              trace s' = trace s @ CacheLookup (EncodeFixed64 fn) #
                concat (map (dir_calls tc ext fn fs) pre) @ dir_calls tc ext fn fs d' @
                CacheInsert (EncodeFixed64 fn) f' t' 1 # map Delete rs)))"
proof -
  let ?dirs = "search_dirs (tc_options tc) (tc_dbname tc) fn"
  let ?key = "EncodeFixed64 fn"
  have n: "TableFileName (number_string ext) dir fn = dir @ ''/'' @ number_string ext fn @ ''.ldb''"
     "SSTTableFileName (number_string ext) dir fn = dir @ ''/'' @ number_string ext fn @ ''.sst''"
    by (simp_all only: TableFileName_def SSTTableFileName_def)
  have cur: "dir_calls tc ext fn fs dir =
        NewRandomAccessFile (TableFileName (number_string ext) dir fn) # TableOpen f fs #
        (if isl (Table_Open ext f fs) then [Delete (FileObject f)] else []) \<and>
      NewRandomAccessFile (SSTTableFileName (number_string ext) dir fn)
        \<notin> set (dir_calls tc ext fn fs dir)"
    if "tc_env tc (TableFileName (number_string ext) dir fn) = Inr f" for f
    using file_names_differ [of "number_string ext" dir fn dir fn]
    by (auto simp: dir_calls_current [OF that])
  have leg: "dir_calls tc ext fn fs dir =
        NewRandomAccessFile (TableFileName (number_string ext) dir fn) #
        NewRandomAccessFile (SSTTableFileName (number_string ext) dir fn) # TableOpen f fs #
        (if isl (Table_Open ext f fs) then [Delete (FileObject f)] else [])"
    if "tc_env tc (TableFileName (number_string ext) dir fn) = Inl e"
      "tc_env tc (SSTTableFileName (number_string ext) dir fn) = Inr f" for e f
    by (rule dir_calls_legacy [OF that])
  have non: "dir_calls tc ext fn fs dir =
        [NewRandomAccessFile (TableFileName (number_string ext) dir fn),
         NewRandomAccessFile (SSTTableFileName (number_string ext) dir fn)]"
    if "tc_env tc (TableFileName (number_string ext) dir fn) = Inl e"
      "tc_env tc (SSTTableFileName (number_string ext) dir fn) = Inl e'" for e e'
    by (rule dir_calls_none [OF that])
  have allfail: "snd (fst (FindTable tc ext fn fs s)) = None \<and>
         trace (snd (FindTable tc ext fn fs s)) =
           trace s @ CacheLookup ?key # concat (map (dir_calls tc ext fn fs) ?dirs)"
    if "fst (Cache_Lookup ?key s) = None"
      "\<forall>x \<in> set ?dirs. \<forall>f t. \<not> dir_succeeds tc ext fn fs x f t"
    using FindTable_all_fail_state [OF that] by simp
  have first: "\<exists>s' rs. FindTable tc ext fn fs s = ((OK, Some (length (cache_entries s))), s') \<and>
              Cache_Value s' (length (cache_entries s)) = Some \<lparr>tf_file = f, tf_table = t\<rparr> \<and>
              trace s' = trace s @ CacheLookup ?key #
                concat (map (dir_calls tc ext fn fs) pre) @ dir_calls tc ext fn fs d @
                CacheInsert ?key f t 1 # map Delete rs"
    if "fst (Cache_Lookup ?key s) = None" "?dirs = pre @ d # post"
      "\<forall>x \<in> set pre. \<forall>f' t'. \<not> dir_succeeds tc ext fn fs x f' t'"
      "dir_succeeds tc ext fn fs d f t" for pre d post f t
  proof -
    from FindTable_first_success [OF that] obtain s' rs where
      a: "FindTable tc ext fn fs s = ((OK, Some (length (cache_entries s))), s')"
      and c: "entry_of s' (length (cache_entries s)) =
             Some \<lparr>e_key = ?key, e_value = \<lparr>tf_file = f, tf_table = t\<rparr>,
                   e_charge = 1, e_deleter = DeleteEntry, e_refs = 2\<rparr>"
      and e: "trace s' = trace s @ CacheLookup ?key #
             concat (map (dir_calls tc ext fn fs) (pre @ [d])) @
             CacheInsert ?key f t 1 # map Delete rs"
      by blast
    have "Cache_Value s' (length (cache_entries s)) = Some \<lparr>tf_file = f, tf_table = t\<rparr>"
      using Cache_Value_Some [OF c] by simp
    moreover have "trace s' = trace s @ CacheLookup ?key #
                concat (map (dir_calls tc ext fn fs) pre) @ dir_calls tc ext fn fs d @
                CacheInsert ?key f t 1 # map Delete rs"
      using e by simp
    ultimately show ?thesis using a by blast
  qed
  have legacy: "dir_succeeds tc ext fn fs dir f t \<and>
           dir_calls tc ext fn fs dir =
             [NewRandomAccessFile (TableFileName (number_string ext) dir fn),
              NewRandomAccessFile (SSTTableFileName (number_string ext) dir fn),
              TableOpen f fs] \<and>
           (\<exists>pre d' post f' t' s' rs.
              ?dirs = pre @ d' # post \<and>
              (\<forall>x \<in> set pre. \<forall>f t. \<not> dir_succeeds tc ext fn fs x f t) \<and>
              dir_succeeds tc ext fn fs d' f' t' \<and> dir \<in> set (d' # post) \<and>
              (d' = dir \<longrightarrow> f' = f \<and> t' = t) \<and>
              FindTable tc ext fn fs s = ((OK, Some (length (cache_entries s))), s') \<and>
              Cache_Value s' (length (cache_entries s)) = Some \<lparr>tf_file = f', tf_table = t'\<rparr> \<and>
              trace s' = trace s @ CacheLookup ?key #
                concat (map (dir_calls tc ext fn fs) pre) @ dir_calls tc ext fn fs d' @
                CacheInsert ?key f' t' 1 # map Delete rs)"
    if m: "fst (Cache_Lookup ?key s) = None" and i: "dir \<in> set ?dirs"
      and o1: "tc_env tc (TableFileName (number_string ext) dir fn) = Inl e"
      and o2: "tc_env tc (SSTTableFileName (number_string ext) dir fn) = Inr f"
      and p: "Table_Open ext f fs = Inr t" for e f t
  proof -
    have ds: "dir_succeeds tc ext fn fs dir f t"
      using o1 o2 p by (simp add: dir_succeeds_env)
    have dc: "dir_calls tc ext fn fs dir =
             [NewRandomAccessFile (TableFileName (number_string ext) dir fn),
              NewRandomAccessFile (SSTTableFileName (number_string ext) dir fn),
              TableOpen f fs]"
      using p by (simp add: dir_calls_legacy [OF o1 o2])
    from first_success_split [OF i ds] obtain pre d' post f' t' where
      sp: "?dirs = pre @ d' # post"
        "\<forall>x \<in> set pre. \<forall>f t. \<not> dir_succeeds tc ext fn fs x f t"
        "dir_succeeds tc ext fn fs d' f' t'" "dir \<in> set (d' # post)"
      by blast
    have u: "d' = dir \<longrightarrow> f' = f \<and> t' = t"
      using dir_succeeds_unique [OF ds] sp(3) by blast
    from first [OF m sp(1,2,3)] obtain s' rs where
      "FindTable tc ext fn fs s = ((OK, Some (length (cache_entries s))), s')"
      "Cache_Value s' (length (cache_entries s)) = Some \<lparr>tf_file = f', tf_table = t'\<rparr>"
      "trace s' = trace s @ CacheLookup ?key #
                concat (map (dir_calls tc ext fn fs) pre) @ dir_calls tc ext fn fs d' @
                CacheInsert ?key f' t' 1 # map Delete rs"
      by blast
    with sp u have "\<exists>pre d' post f' t' s' rs.
              ?dirs = pre @ d' # post \<and>
              (\<forall>x \<in> set pre. \<forall>f t. \<not> dir_succeeds tc ext fn fs x f t) \<and>
              dir_succeeds tc ext fn fs d' f' t' \<and> dir \<in> set (d' # post) \<and>
              (d' = dir \<longrightarrow> f' = f \<and> t' = t) \<and>
              FindTable tc ext fn fs s = ((OK, Some (length (cache_entries s))), s') \<and>
              Cache_Value s' (length (cache_entries s)) = Some \<lparr>tf_file = f', tf_table = t'\<rparr> \<and>
              trace s' = trace s @ CacheLookup ?key #
                concat (map (dir_calls tc ext fn fs) pre) @ dir_calls tc ext fn fs d' @
                CacheInsert ?key f' t' 1 # map Delete rs"
      by blast
    with ds dc show ?thesis by blast
  qed
  show ?thesis
    apply (intro conjI allI impI)
    subgoal by (rule n(1))
    subgoal by (rule n(2))
    subgoal for f using cur [of f] by blast
    subgoal for f using cur [of f] by blast
    subgoal for e f using leg [of e f] by blast
    subgoal for e e' using non [of e e'] by blast
    subgoal using allfail by blast
    subgoal using allfail by blast
    subgoal for pre d post f t using first [of pre d post f t] by blast
    subgoal for e f t using legacy [of e f t] by blast
    subgoal for e f t using legacy [of e f t] by blast
    subgoal for e f t using legacy [of e f t] by blast
    done
qed

text \<open>
  The table exists as a/000005.sst only: b is probed under both names, then a under both
  names, the legacy file is parsed and cached, and db is not probed. Where the table
  exists as b/000005.ldb, the legacy name is not tried in b. Where it exists nowhere,
  both names are tried in every directory.
\<close>

theorem current_name_before_legacy_name_witness:
  "(\<exists>s' rs. FindTable (demo_tc [''a/000005.sst''] ''db'' demo_options) demo_ext 5 100 initial_state =
       ((OK, Some 0), s') \<and>
     Cache_Value s' 0 = Some \<lparr>tf_file = ''a/000005.sst'', tf_table = ''table:a/000005.sst''\<rparr> \<and>
     trace s' =
       [CacheLookup (EncodeFixed64 5),
        NewRandomAccessFile ''b/000005.ldb'', NewRandomAccessFile ''b/000005.sst'',
        NewRandomAccessFile ''a/000005.ldb'', NewRandomAccessFile ''a/000005.sst'',
        TableOpen ''a/000005.sst'' 100,
        CacheInsert (EncodeFixed64 5) ''a/000005.sst'' ''table:a/000005.sst'' 1] @ map Delete rs) \<and>
   dir_calls (demo_tc [''b/000005.ldb''] ''db'' demo_options) demo_ext 5 100 ''b'' =
     [NewRandomAccessFile ''b/000005.ldb'', TableOpen ''b/000005.ldb'' 100] \<and>
   NewRandomAccessFile ''b/000005.sst''
     \<notin> set (dir_calls (demo_tc [''b/000005.ldb''] ''db'' demo_options) demo_ext 5 100 ''b'') \<and>
   snd (fst (FindTable (demo_tc [] ''db'' demo_options) demo_ext 5 100 initial_state)) = None \<and>
   trace (snd (FindTable (demo_tc [] ''db'' demo_options) demo_ext 5 100 initial_state)) =
     [CacheLookup (EncodeFixed64 5),
      NewRandomAccessFile ''b/000005.ldb'', NewRandomAccessFile ''b/000005.sst'',
      NewRandomAccessFile ''a/000005.ldb'', NewRandomAccessFile ''a/000005.sst'',
      NewRandomAccessFile ''db/000005.ldb'', NewRandomAccessFile ''db/000005.sst'']"
proof -
  let ?tc = "demo_tc [''a/000005.sst''] ''db'' demo_options"
  let ?tc' = "demo_tc [''b/000005.ldb''] ''db'' demo_options"
  let ?none = "demo_tc [] ''db'' demo_options"
  let ?init = "initial_state :: (string, string) state"
  have l0: "length (cache_entries ?init) = 0" "trace ?init = []"
    by (simp_all add: initial_state_def)
  have a1: "tc_env ?tc (TableFileName (number_string demo_ext) ''a'' 5) = Inl (NotFound ''a/000005.ldb'')"
    by (simp add: demo_tc_sel demo_names)
  have a2: "tc_env ?tc (SSTTableFileName (number_string demo_ext) ''a'' 5) = Inr ''a/000005.sst''"
    by (simp add: demo_tc_sel demo_names)
  have a3: "Table_Open demo_ext ''a/000005.sst'' 100 = Inr ''table:a/000005.sst''"
    by (simp add: demo_Table_Open)
  have a4: "''a'' \<in> set (search_dirs (tc_options ?tc) (tc_dbname ?tc) 5)"
    by (simp add: demo_tc_sel demo_path)
  have path: "search_dirs (tc_options ?tc) (tc_dbname ?tc) 5 = [''b''] @ ''a'' # [''db'']"
    by (simp add: demo_tc_sel demo_path)
  have fails: "\<forall>x \<in> set [''b'']. \<forall>f' t'. \<not> dir_succeeds ?tc demo_ext 5 100 x f' t'"
    by (simp add: dir_succeeds_def demo_dir_opened)
  have b1: "tc_env ?tc (TableFileName (number_string demo_ext) ''b'' 5) = Inl (NotFound ''b/000005.ldb'')"
    by (simp add: demo_tc_sel demo_names)
  have b2: "tc_env ?tc (SSTTableFileName (number_string demo_ext) ''b'' 5) = Inl (NotFound ''b/000005.sst'')"
    by (simp add: demo_tc_sel demo_names)
  note thm_a = current_name_before_legacy_name [of demo_ext "''a''" 5 ?tc 100 ?init]
  note thm_b = current_name_before_legacy_name [of demo_ext "''b''" 5 ?tc 100 ?init]
  from thm_a a1 a2 a3 a4 initial_miss [of "EncodeFixed64 5"]
  have sa: "dir_succeeds ?tc demo_ext 5 100 ''a'' ''a/000005.sst'' ''table:a/000005.sst''"
    and ca: "dir_calls ?tc demo_ext 5 100 ''a'' =
             [NewRandomAccessFile (TableFileName (number_string demo_ext) ''a'' 5),
              NewRandomAccessFile (SSTTableFileName (number_string demo_ext) ''a'' 5),
              TableOpen ''a/000005.sst'' 100]"
    by blast+
  from thm_b b1 b2
  have cb: "dir_calls ?tc demo_ext 5 100 ''b'' =
        [NewRandomAccessFile (TableFileName (number_string demo_ext) ''b'' 5),
         NewRandomAccessFile (SSTTableFileName (number_string demo_ext) ''b'' 5)]"
    by blast
  from thm_a initial_miss [of "EncodeFixed64 5"] path fails sa
  have "\<exists>s' rs. FindTable ?tc demo_ext 5 100 ?init = ((OK, Some (length (cache_entries ?init))), s') \<and>
              Cache_Value s' (length (cache_entries ?init)) =
                Some \<lparr>tf_file = ''a/000005.sst'', tf_table = ''table:a/000005.sst''\<rparr> \<and>
              trace s' = trace ?init @ CacheLookup (EncodeFixed64 5) #
                concat (map (dir_calls ?tc demo_ext 5 100) [''b'']) @ dir_calls ?tc demo_ext 5 100 ''a'' @
                CacheInsert (EncodeFixed64 5) ''a/000005.sst'' ''table:a/000005.sst'' 1 # map Delete rs"
    by blast
  then have one: "\<exists>s' rs. FindTable ?tc demo_ext 5 100 initial_state = ((OK, Some 0), s') \<and>
     Cache_Value s' 0 = Some \<lparr>tf_file = ''a/000005.sst'', tf_table = ''table:a/000005.sst''\<rparr> \<and>
     trace s' =
       [CacheLookup (EncodeFixed64 5),
        NewRandomAccessFile ''b/000005.ldb'', NewRandomAccessFile ''b/000005.sst'',
        NewRandomAccessFile ''a/000005.ldb'', NewRandomAccessFile ''a/000005.sst'',
        TableOpen ''a/000005.sst'' 100,
        CacheInsert (EncodeFixed64 5) ''a/000005.sst'' ''table:a/000005.sst'' 1] @ map Delete rs"
    by (simp add: l0 ca cb demo_names)
  have c1: "tc_env ?tc' (TableFileName (number_string demo_ext) ''b'' 5) = Inr ''b/000005.ldb''"
    by (simp add: demo_tc_sel demo_names)
  from current_name_before_legacy_name [of demo_ext "''b''" 5 ?tc' 100 ?init] c1
  have "dir_calls ?tc' demo_ext 5 100 ''b'' =
        NewRandomAccessFile (TableFileName (number_string demo_ext) ''b'' 5) #
        TableOpen ''b/000005.ldb'' 100 #
        (if isl (Table_Open demo_ext ''b/000005.ldb'' 100) then [Delete (FileObject ''b/000005.ldb'')]
         else [])"
    and "NewRandomAccessFile (SSTTableFileName (number_string demo_ext) ''b'' 5)
        \<notin> set (dir_calls ?tc' demo_ext 5 100 ''b'')"
    by blast+
  then have two: "dir_calls ?tc' demo_ext 5 100 ''b'' =
     [NewRandomAccessFile ''b/000005.ldb'', TableOpen ''b/000005.ldb'' 100] \<and>
     NewRandomAccessFile ''b/000005.sst'' \<notin> set (dir_calls ?tc' demo_ext 5 100 ''b'')"
    by (simp add: demo_names demo_Table_Open)
  have f0: "\<forall>x \<in> set (search_dirs (tc_options ?none) (tc_dbname ?none) 5).
          \<forall>f t. \<not> dir_succeeds ?none demo_ext 5 100 x f t"
    by (simp add: dir_succeeds_def demo_dir_opened)
  have c0: "dir_calls ?none demo_ext 5 100 x =
      [NewRandomAccessFile (x @ ''/000005.ldb''), NewRandomAccessFile (x @ ''/000005.sst'')]" for x
    by (simp add: dir_calls_def demo_dir_opened demo_names demo_tc_sel)
  from current_name_before_legacy_name [of demo_ext "''db''" 5 ?none 100 ?init]
    initial_miss [of "EncodeFixed64 5"] f0
  have "snd (fst (FindTable ?none demo_ext 5 100 ?init)) = None \<and>
         trace (snd (FindTable ?none demo_ext 5 100 ?init)) =
           trace ?init @ CacheLookup (EncodeFixed64 5) #
             concat (map (dir_calls ?none demo_ext 5 100)
               (search_dirs (tc_options ?none) (tc_dbname ?none) 5))"
    by blast
  then have three: "snd (fst (FindTable ?none demo_ext 5 100 initial_state)) = None \<and>
   trace (snd (FindTable ?none demo_ext 5 100 initial_state)) =
     [CacheLookup (EncodeFixed64 5),
      NewRandomAccessFile ''b/000005.ldb'', NewRandomAccessFile ''b/000005.sst'',
      NewRandomAccessFile ''a/000005.ldb'', NewRandomAccessFile ''a/000005.sst'',
      NewRandomAccessFile ''db/000005.ldb'', NewRandomAccessFile ''db/000005.sst'']"
    by (simp add: l0 c0 demo_tc_sel demo_path)
  from one two three show ?thesis by blast
qed

section \<open>The error iterator (C6)\<close>

text \<open>
  C6. When the resolution fails, NewIterator returns the error iterator made from the
  status of the failure: an iterator without records and without cleanups whose status
  is that failure, never an OK one; the table pointer is left null.
\<close>

theorem NewIterator_resolution_failure:
  assumes "fst (fst (FindTable tc ext fn fs s)) = Failed e"
  shows "\<exists>it. NewIterator tc ext fn fs s = (Some (it, None), snd (FindTable tc ext fn fs s)) \<and>
              it = NewErrorIterator (Failed e) \<and>
              it_status it = Failed e \<and> \<not> ok (it_status it) \<and>
              it_records it = [] \<and> it_cleanups it = []"
proof -
  obtain hopt s1 where "FindTable tc ext fn fs s = ((Failed e, hopt), s1)"
    using assms by (cases "FindTable tc ext fn fs s") auto
  then show ?thesis
    by (simp add: NewIterator_def NewErrorIterator_def ok_def)
qed

text \<open>No file anywhere: the iterator reports the NotFound of the primary directory db.\<close>

theorem NewIterator_resolution_failure_witness:
  "\<exists>it s1. NewIterator (demo_tc [] ''db'' demo_options) demo_ext 5 100 initial_state =
             (Some (it, None), s1) \<and>
           it_status it = Failed (NotFound ''db/000005.ldb'') \<and> it_records it = []"
proof -
  let ?tc = "demo_tc [] ''db'' demo_options"
  have "fst (FindTable ?tc demo_ext 5 100 initial_state) =
      (Failed (NotFound ''db/000005.ldb''), None)"
    by (simp add: FindTable_miss [OF initial_miss] demo_tc_sel demo_path demo_probe_missing)
  then have "fst (fst (FindTable ?tc demo_ext 5 100 initial_state)) =
      Failed (NotFound ''db/000005.ldb'')"
    by simp
  from NewIterator_resolution_failure [OF this] show ?thesis by blast
qed

section \<open>The cleanup of an iterator (C7)\<close>

text \<open>
  C7. When the resolution succeeds, NewIterator returns the table's iterator with one
  cleanup added to those it came with: UnrefEntry on the handle that the resolution
  acquired. Deleting the returned iterator after any number of steps, exhausted or not,
  does what deleting the table's own iterator does and then releases that handle once:
  the number of releases of the handle in the trace grows by exactly one.
\<close>

theorem NewIterator_registers_release:
  assumes "fst (fst (FindTable tc ext fn fs s)) = OK"
  shows "\<exists>h s1 tf it.
           FindTable tc ext fn fs s = ((OK, Some h), s1) \<and>
           Cache_Value s1 h = Some tf \<and>
           NewIterator tc ext fn fs s =
             (Some (it, Some (tf_table tf)), emit (NewTableIterator (tf_table tf)) s1) \<and>
           it = RegisterCleanup (UnrefEntry h) (Table_NewIterator ext (tf_table tf)) \<and>
           it_status it = it_status (Table_NewIterator ext (tf_table tf)) \<and>
           it_records it = it_records (Table_NewIterator ext (tf_table tf)) \<and>
           it_cleanups it = it_cleanups (Table_NewIterator ext (tf_table tf)) @ [UnrefEntry h] \<and>
           (\<forall>k s'. Iterator_delete ((Iterator_Next ^^ k) it) s' =
                     Cache_Release h
                       (Iterator_delete ((Iterator_Next ^^ k) (Table_NewIterator ext (tf_table tf))) s') \<and>
                   releases h (trace (Iterator_delete ((Iterator_Next ^^ k) it) s')) =
                     Suc (releases h (trace
                       (Iterator_delete ((Iterator_Next ^^ k) (Table_NewIterator ext (tf_table tf))) s'))))"
proof -
  from FindTable_status_handle [OF assms] obtain h s1 e where
    ft: "FindTable tc ext fn fs s = ((OK, Some h), s1)" and e: "entry_of s1 h = Some e"
    by blast
  let ?tf = "e_value e"
  let ?base = "Table_NewIterator ext (tf_table ?tf)"
  let ?it = "RegisterCleanup (UnrefEntry h) ?base"
  have v: "Cache_Value s1 h = Some ?tf"
    using e by (rule Cache_Value_Some)
  have ni: "NewIterator tc ext fn fs s =
             (Some (?it, Some (tf_table ?tf)), emit (NewTableIterator (tf_table ?tf)) s1)"
    by (simp add: NewIterator_def ft v Let_def)
  have del: "Iterator_delete ((Iterator_Next ^^ k) ?it) s' =
               Cache_Release h (Iterator_delete ((Iterator_Next ^^ k) ?base) s')" for k s'
    by (simp add: Iterator_Next_RegisterCleanup Iterator_delete_RegisterCleanup UnrefEntry_def)
  have cnt: "releases h (trace (Iterator_delete ((Iterator_Next ^^ k) ?it) s')) =
               Suc (releases h (trace (Iterator_delete ((Iterator_Next ^^ k) ?base) s')))" for k s'
    by (simp add: del releases_Cache_Release)
  have sel: "it_status ?it = it_status ?base" "it_records ?it = it_records ?base"
    "it_cleanups ?it = it_cleanups ?base @ [UnrefEntry h]"
    by (simp_all add: RegisterCleanup_def)
  from ft v ni sel del cnt show ?thesis by blast
qed

text \<open>
  The iterator over the table found in a/000005.sst is abandoned after three steps: the
  handle 0 is released once, and the entry keeps the cache's reference only.
\<close>

theorem NewIterator_registers_release_witness:
  "\<exists>it t s0 s1.
     FindTable (demo_tc [''a/000005.sst''] ''db'' demo_options) demo_ext 5 100 initial_state =
       ((OK, Some 0), s0) \<and>
     NewIterator (demo_tc [''a/000005.sst''] ''db'' demo_options) demo_ext 5 100 initial_state =
       (Some (it, t), s1) \<and>
     length (it_cleanups it) = 1 \<and>
     releases 0 (trace (Iterator_delete ((Iterator_Next ^^ 3) it) s0)) = 1"
proof -
  let ?tc = "demo_tc [''a/000005.sst''] ''db'' demo_options"
  obtain s0 where f: "FindTable ?tc demo_ext 5 100 initial_state = ((OK, Some 0), s0)"
    using demo_first_call by blast
  then have ok: "fst (fst (FindTable ?tc demo_ext 5 100 initial_state)) = OK"
    by simp
  have r0: "releases 0 (trace s0) = 0"
    using releases_FindTable [of 0 ?tc demo_ext 5 100 initial_state] f
    by (simp add: initial_state_def releases_Nil)
  have base: "Table_NewIterator demo_ext t = \<lparr>it_status = OK, it_records = [], it_cleanups = []\<rparr>" for t
    by (simp add: demo_ext_def)
  have nodel: "Iterator_delete ((Iterator_Next ^^ k) (Table_NewIterator demo_ext t)) s' = s'" for k t s'
    by (simp add: Iterator_delete_def Iterator_Next_cleanups base)
  from NewIterator_registers_release [OF ok] show ?thesis
  proof (elim exE conjE)
    fix h s1 it and tf :: "(string, string) TableAndFile"
    assume a: "FindTable ?tc demo_ext 5 100 initial_state = ((OK, Some h), s1)"
      and ni: "NewIterator ?tc demo_ext 5 100 initial_state =
             (Some (it, Some (tf_table tf)), emit (NewTableIterator (tf_table tf)) s1)"
      and c: "it_cleanups it = it_cleanups (Table_NewIterator demo_ext (tf_table tf)) @ [UnrefEntry h]"
      and d: "\<forall>k s'. Iterator_delete ((Iterator_Next ^^ k) it) s' =
                     Cache_Release h
                       (Iterator_delete ((Iterator_Next ^^ k) (Table_NewIterator demo_ext (tf_table tf))) s') \<and>
                   releases h (trace (Iterator_delete ((Iterator_Next ^^ k) it) s')) =
                     Suc (releases h (trace
                       (Iterator_delete ((Iterator_Next ^^ k) (Table_NewIterator demo_ext (tf_table tf))) s')))"
    from a f have eq: "h = 0" "s1 = s0" by simp_all
    have "length (it_cleanups it) = 1"
      by (simp add: c base)
    moreover have "releases 0 (trace (Iterator_delete ((Iterator_Next ^^ 3) it) s0)) = 1"
      using r0 d [rule_format, of 3 s0, THEN conjunct2] unfolding eq by (simp add: nodel)
    ultimately show ?thesis using ni f unfolding eq by blast
  qed
qed

section \<open>The release in Get (C8)\<close>

text \<open>
  C8. When the resolution succeeds, Get looks the key up in the table of the cached
  entry, then releases the handle that the resolution acquired, and returns the status
  (and the record found) of the table's lookup as it is, whatever it is. Over the whole
  call the handle is released exactly once, and no other handle is released; the
  release is the last call made.
\<close>

theorem Get_releases_once:
  assumes "fst (fst (FindTable tc ext fn fs s)) = OK"
  shows "\<exists>h s1 tf rs.
           FindTable tc ext fn fs s = ((OK, Some h), s1) \<and>
           Cache_Value s1 h = Some tf \<and>
           Get tc ext fn fs k s =
             (Some (Table_InternalGet ext (tf_table tf) k),
              Cache_Release h (emit (InternalGet (tf_table tf) k) s1)) \<and>
           fst (the (fst (Get tc ext fn fs k s))) = fst (Table_InternalGet ext (tf_table tf) k) \<and>
           trace (snd (Get tc ext fn fs k s)) =
             trace s1 @ [InternalGet (tf_table tf) k, CacheRelease h] @ map Delete rs \<and>
           (\<forall>h'. releases h' (trace (snd (Get tc ext fn fs k s))) =
                   (if h' = h then Suc (releases h' (trace s)) else releases h' (trace s)))"
proof -
  from FindTable_status_handle [OF assms] obtain h s1 e where
    ft: "FindTable tc ext fn fs s = ((OK, Some h), s1)" and e: "entry_of s1 h = Some e"
    by blast
  let ?tf = "e_value e"
  let ?s2 = "emit (InternalGet (tf_table ?tf) k) s1"
  have v: "Cache_Value s1 h = Some ?tf"
    using e by (rule Cache_Value_Some)
  have g: "Get tc ext fn fs k s = (Some (Table_InternalGet ext (tf_table ?tf) k), Cache_Release h ?s2)"
    by (simp add: Get_def ft v Let_def)
  obtain rs where "trace (Cache_Release h ?s2) = trace ?s2 @ [CacheRelease h] @ map Delete rs"
    using trace_Unref [of h "emit (CacheRelease h) ?s2"]
    by (auto simp: Cache_Release_def trace_emit)
  then have t: "trace (snd (Get tc ext fn fs k s)) =
             trace s1 @ [InternalGet (tf_table ?tf) k, CacheRelease h] @ map Delete rs"
    by (simp add: g trace_emit)
  have "releases h' (trace s1) = releases h' (trace s)" for h'
    using releases_FindTable [of h' tc ext fn fs s] ft by simp
  then have r: "releases h' (trace (snd (Get tc ext fn fs k s))) =
                   (if h' = h then Suc (releases h' (trace s)) else releases h' (trace s))" for h'
    by (simp add: t releases_append releases_Cons releases_Nil releases_Delete)
  have "fst (the (fst (Get tc ext fn fs k s))) = fst (Table_InternalGet ext (tf_table ?tf) k)"
    by (simp add: g)
  with ft v g t r show ?thesis by blast
qed

text \<open>A point lookup in the table found in a/000005.sst: one release of the handle 0.\<close>

theorem Get_releases_once_witness:
  "fst (Get (demo_tc [''a/000005.sst''] ''db'' demo_options) demo_ext 5 100 [] initial_state) =
     Some (OK, None) \<and>
   releases 0 (trace (snd (Get (demo_tc [''a/000005.sst''] ''db'' demo_options) demo_ext 5 100 []
     initial_state))) = 1"
proof -
  let ?tc = "demo_tc [''a/000005.sst''] ''db'' demo_options"
  obtain s0 where f: "FindTable ?tc demo_ext 5 100 initial_state = ((OK, Some 0), s0)"
    using demo_first_call by blast
  then have ok: "fst (fst (FindTable ?tc demo_ext 5 100 initial_state)) = OK"
    by simp
  have g: "Table_InternalGet demo_ext t k = (OK, None)" for t k
    by (simp add: demo_ext_def)
  from Get_releases_once [OF ok, of "[]"] f
  show ?thesis
    by (auto simp: g initial_state_def releases_Nil)
qed

section \<open>Evict (C9)\<close>



section \<open>The error of the legacy open (C10)\<close>

text \<open>
  C10. When the open of the current name and the open of the legacy name both fail in a
  directory, the failure recorded for the directory is the one of the current name; the
  error of the legacy open is dropped. If the directory is the last one of the path and
  all directories fail, it is the error FindTable returns.
\<close>

theorem legacy_open_error_discarded:
  assumes "tc_env tc (TableFileName (number_string ext) dir fn) = Inl e1"
    and "tc_env tc (SSTTableFileName (number_string ext) dir fn) = Inl e2"
  shows "fst (probe_dir tc ext fn fs dir) = Inl e1 \<and>
         dir_status tc ext fn fs dir = Failed e1 \<and>
         (fst (Cache_Lookup (EncodeFixed64 fn) s) = None \<and>
          (\<forall>d \<in> set (search_dirs (tc_options tc) (tc_dbname tc) fn). dir_status tc ext fn fs d \<noteq> OK) \<and>
          search_dirs (tc_options tc) (tc_dbname tc) fn \<noteq> [] \<and>
          last (search_dirs (tc_options tc) (tc_dbname tc) fn) = dir \<longrightarrow>
            fst (FindTable tc ext fn fs s) = (Failed e1, None))"
proof -
  have p: "fst (probe_dir tc ext fn fs dir) = Inl e1"
    by (simp add: probe_dir_both_missing [OF assms])
  then have d: "dir_status tc ext fn fs dir = Failed e1"
    by (rule dir_status_Inl)
  have "fst (FindTable tc ext fn fs s) = (Failed e1, None)"
    if "fst (Cache_Lookup (EncodeFixed64 fn) s) = None"
      "\<forall>d \<in> set (search_dirs (tc_options tc) (tc_dbname tc) fn). dir_status tc ext fn fs d \<noteq> OK"
      "search_dirs (tc_options tc) (tc_dbname tc) fn \<noteq> []"
      "last (search_dirs (tc_options tc) (tc_dbname tc) fn) = dir"
    using that(3,4) d
    by (simp only: FindTable_miss [OF that(1)] probe_dirs_all_fail [OF that(2)] fst_conv) simp
  with p d show ?thesis by blast
qed

text \<open>The I/O error of db/000005.ldb is returned, not the NotFound of db/000005.sst.\<close>

theorem legacy_open_error_discarded_witness:
  "fst (FindTable ((demo_tc [] ''db'' demo_options)\<lparr>tc_env := failing_env\<rparr>) demo_ext 5 100 initial_state) =
     (Failed (IOError ''db/000005.ldb''), None)"
proof -
  let ?tc = "(demo_tc [] ''db'' demo_options)\<lparr>tc_env := failing_env\<rparr>"
  have sel: "tc_env ?tc = failing_env" "tc_options ?tc = demo_options" "tc_dbname ?tc = ''db''"
    by (simp_all add: demo_tc_def)
  have a: "tc_env ?tc (TableFileName (number_string demo_ext) ''db'' 5) = Inl (IOError ''db/000005.ldb'')"
    by (simp add: sel demo_names failing_env_def)
  have b: "tc_env ?tc (SSTTableFileName (number_string demo_ext) ''db'' 5) = Inl (NotFound ''db/000005.sst'')"
    by (simp add: sel demo_names failing_env_def)
  have c: "\<forall>d \<in> set (search_dirs (tc_options ?tc) (tc_dbname ?tc) 5).
            dir_status ?tc demo_ext 5 100 d \<noteq> OK"
    by (simp add: sel dir_status_def probe_dir_def Let_def failing_env_def)
  have d: "search_dirs (tc_options ?tc) (tc_dbname ?tc) 5 \<noteq> [] \<and>
           last (search_dirs (tc_options ?tc) (tc_dbname ?tc) 5) = ''db''"
    by (simp add: sel demo_path)
  from legacy_open_error_discarded [OF a b, of 100 initial_state] initial_miss c d
  show ?thesis by blast
qed

end
